theory Spec2Isabelle
  imports Main "HOL-Library.Sublist"
begin

section \<open>Strings of the run time\<close>

text \<open>
  A string of the program is a sequence of code units. The embedding carries the code
  units below 256 (ASCII and Latin-1) in the type \<^typ>\<open>char\<close>; \<open>length\<close> is the
  \<open>.length\<close> of the program on such strings. White space is what \<open>trim()\<close> and the
  class \<open>\s\<close> accept in that range: tab, line feed, vertical tab, form feed, carriage
  return, space and the no-break space.
\<close>

definition is_ws :: "char \<Rightarrow> bool" where
  "is_ws c = (c \<in> set [CHR 0x09, CHR 0x0A, CHR 0x0B, CHR 0x0C, CHR 0x0D, CHR 0x20, CHR 0xA0])"

definition trim :: "string \<Rightarrow> string" where
  "trim s = rev (dropWhile is_ws (rev (dropWhile is_ws s)))"

definition upper_letters :: "char list" where
  "upper_letters = ''ABCDEFGHIJKLMNOPQRSTUVWXYZ'' @
     [CHR 0xC0, CHR 0xC1, CHR 0xC2, CHR 0xC3, CHR 0xC4, CHR 0xC5, CHR 0xC6, CHR 0xC7,
      CHR 0xC8, CHR 0xC9, CHR 0xCA, CHR 0xCB, CHR 0xCC, CHR 0xCD, CHR 0xCE, CHR 0xCF,
      CHR 0xD0, CHR 0xD1, CHR 0xD2, CHR 0xD3, CHR 0xD4, CHR 0xD5, CHR 0xD6, CHR 0xD8,
      CHR 0xD9, CHR 0xDA, CHR 0xDB, CHR 0xDC, CHR 0xDD, CHR 0xDE]"

definition lower_letters :: "char list" where
  "lower_letters = ''abcdefghijklmnopqrstuvwxyz'' @
     [CHR 0xE0, CHR 0xE1, CHR 0xE2, CHR 0xE3, CHR 0xE4, CHR 0xE5, CHR 0xE6, CHR 0xE7,
      CHR 0xE8, CHR 0xE9, CHR 0xEA, CHR 0xEB, CHR 0xEC, CHR 0xED, CHR 0xEE, CHR 0xEF,
      CHR 0xF0, CHR 0xF1, CHR 0xF2, CHR 0xF3, CHR 0xF4, CHR 0xF5, CHR 0xF6, CHR 0xF8,
      CHR 0xF9, CHR 0xFA, CHR 0xFB, CHR 0xFC, CHR 0xFD, CHR 0xFE]"

text \<open>\<open>toLowerCase()\<close>, one code unit at a time: the letters A to Z and the Latin-1
  capitals (all of 0xC0 to 0xDE but the multiplication sign) move to their small forms.\<close>

definition lower_char :: "char \<Rightarrow> char" where
  "lower_char c = (case map_of (zip upper_letters lower_letters) c of Some l \<Rightarrow> l | None \<Rightarrow> c)"

definition toLowerCase :: "string \<Rightarrow> string" where
  "toLowerCase s = map lower_char s"

text \<open>The canonical form that a pattern with the flag \<open>i\<close> compares: the capital.\<close>

definition canon_char :: "char \<Rightarrow> char" where
  "canon_char c = (case map_of (zip lower_letters upper_letters) c of Some u \<Rightarrow> u | None \<Rightarrow> c)"

text \<open>\<open>s.includes(w)\<close>: some suffix of \<open>s\<close> starts with \<open>w\<close>.\<close>

fun starts_with :: "string \<Rightarrow> string \<Rightarrow> bool" where
  "starts_with [] s = True"
| "starts_with (w # ws) [] = False"
| "starts_with (w # ws) (c # cs) = (w = c \<and> starts_with ws cs)"

fun js_includes :: "string \<Rightarrow> string \<Rightarrow> bool" where
  "js_includes [] w = starts_with w []"
| "js_includes (c # cs) w = (starts_with w (c # cs) \<or> js_includes cs w)"

section \<open>Regular expressions of the source\<close>

text \<open>
  The patterns the source uses are sequences of atoms, alternated at the top level
  only. They are run by a backtracking matcher with the priorities of \<open>RegExp\<close>: a
  greedy star takes the longest run first, a lazy star the shortest, an optional
  literal is tried before it is skipped, the first alternative that matches wins, and
  the leftmost start position wins over all. \<open>Lazy\<close> is the lazy star inside the one
  capturing group of the source, so the text it consumes is returned as group 1.
\<close>

datatype cclass = CAny | CWs | COneOf "char list" | CNot cclass

fun in_class :: "cclass \<Rightarrow> char \<Rightarrow> bool" where
  "in_class CAny c = True"
| "in_class CWs c = is_ws c"
| "in_class (COneOf cs) c = (c \<in> set cs)"
| "in_class (CNot k) c = (\<not> in_class k c)"

datatype atom = Bol | Eol | Lit string | Opt string | One cclass | Star cclass | Lazy cclass

type_synonym regex = "atom list list"

text \<open>A literal at the head of the input; with the flag \<open>i\<close> both sides are compared in
  canonical form. The result is the input that follows the literal.\<close>

fun lit_rest :: "bool \<Rightarrow> string \<Rightarrow> string \<Rightarrow> string option" where
  "lit_rest ic [] s = Some s"
| "lit_rest ic (w # ws) [] = None"
| "lit_rest ic (w # ws) (c # cs) =
     (if (if ic then canon_char w = canon_char c else w = c) then lit_rest ic ws cs else None)"

text \<open>\<open>re_match ic i atoms s\<close> matches the atoms at the head of \<open>s\<close>, which starts at
  index \<open>i\<close> of the whole input; it returns group 1 and the input after the match.\<close>

fun re_match :: "bool \<Rightarrow> nat \<Rightarrow> atom list \<Rightarrow> string \<Rightarrow> (string \<times> string) option" where
  "re_match ic i [] s = Some ([], s)"
| "re_match ic i (Bol # r) s = (if i = 0 then re_match ic i r s else None)"
| "re_match ic i (Eol # r) s = (if s = [] then re_match ic i r s else None)"
| "re_match ic i (Lit w # r) s =
     (case lit_rest ic w s of None \<Rightarrow> None
      | Some s' \<Rightarrow> re_match ic (i + length w) r s')"
| "re_match ic i (Opt w # r) s =
     (case (case lit_rest ic w s of None \<Rightarrow> None
            | Some s' \<Rightarrow> re_match ic (i + length w) r s') of
        Some res \<Rightarrow> Some res
      | None \<Rightarrow> re_match ic i r s)"
| "re_match ic i (One k # r) [] = None"
| "re_match ic i (One k # r) (c # cs) =
     (if in_class k c then re_match ic (Suc i) r cs else None)"
| "re_match ic i (Star k # r) [] = re_match ic i r []"
| "re_match ic i (Star k # r) (c # cs) =
     (case (if in_class k c then re_match ic (Suc i) (Star k # r) cs else None) of
        Some res \<Rightarrow> Some res
      | None \<Rightarrow> re_match ic i r (c # cs))"
| "re_match ic i (Lazy k # r) [] =
     (case re_match ic i r [] of Some (g, rest) \<Rightarrow> Some ([], rest) | None \<Rightarrow> None)"
| "re_match ic i (Lazy k # r) (c # cs) =
     (case re_match ic i r (c # cs) of
        Some (g, rest) \<Rightarrow> Some ([], rest)
      | None \<Rightarrow>
          if in_class k c
          then (case re_match ic (Suc i) (Lazy k # r) cs of
                  None \<Rightarrow> None
                | Some (g, rest) \<Rightarrow> Some (c # g, rest))
          else None)"

fun re_alts :: "bool \<Rightarrow> nat \<Rightarrow> regex \<Rightarrow> string \<Rightarrow> (string \<times> string) option" where
  "re_alts ic i [] s = None"
| "re_alts ic i (a # as) s =
     (case re_match ic i a s of Some res \<Rightarrow> Some res | None \<Rightarrow> re_alts ic i as s)"

text \<open>The leftmost match from index \<open>i\<close> on: the skipped text, group 1, the rest.\<close>

fun re_search :: "bool \<Rightarrow> regex \<Rightarrow> nat \<Rightarrow> string \<Rightarrow> (string \<times> string \<times> string) option" where
  "re_search ic re i [] =
     (case re_alts ic i re [] of None \<Rightarrow> None | Some (g, rest) \<Rightarrow> Some ([], g, rest))"
| "re_search ic re i (c # cs) =
     (case re_alts ic i re (c # cs) of
        Some (g, rest) \<Rightarrow> Some ([], g, rest)
      | None \<Rightarrow>
          (case re_search ic re (Suc i) cs of
             None \<Rightarrow> None
           | Some (skipped, g, rest) \<Rightarrow> Some (c # skipped, g, rest)))"

definition re_test :: "bool \<Rightarrow> regex \<Rightarrow> string \<Rightarrow> bool" where
  "re_test ic re s = (re_search ic re 0 s \<noteq> None)"

text \<open>\<open>s.match(re)\<close> without the flag \<open>g\<close>, read at group 1.\<close>

definition re_group1 :: "bool \<Rightarrow> regex \<Rightarrow> string \<Rightarrow> string option" where
  "re_group1 ic re s = map_option (\<lambda>(skipped, g, rest). g) (re_search ic re 0 s)"

text \<open>\<open>s.replace(re, rep)\<close> without the flag \<open>g\<close>: the leftmost match only.\<close>

definition replace_first :: "regex \<Rightarrow> string \<Rightarrow> string \<Rightarrow> string" where
  "replace_first re rep s =
     (case re_search False re 0 s of None \<Rightarrow> s
      | Some (skipped, g, rest) \<Rightarrow> skipped @ rep @ rest)"

text \<open>\<open>s.replace(re, rep)\<close> with the flag \<open>g\<close>: every match, left to right, each search
  starting where the last match ended; after an empty match one code unit is copied.\<close>

function replace_all_from :: "regex \<Rightarrow> string \<Rightarrow> nat \<Rightarrow> string \<Rightarrow> string" where
  "replace_all_from re rep i s =
     (case re_alts False i re s of
        Some (g, rest) \<Rightarrow>
          if length rest < length s
          then rep @ replace_all_from re rep (i + (length s - length rest)) rest
          else rep @ (case s of [] \<Rightarrow> [] | c # cs \<Rightarrow> c # replace_all_from re rep (Suc i) cs)
      | None \<Rightarrow> (case s of [] \<Rightarrow> [] | c # cs \<Rightarrow> c # replace_all_from re rep (Suc i) cs))"
  by pat_completeness auto
termination
  by (relation "measure (\<lambda>(re, rep, i, s). length s)") auto

declare replace_all_from.simps [simp del]

definition replace_all :: "regex \<Rightarrow> string \<Rightarrow> string \<Rightarrow> string" where
  "replace_all re rep s = replace_all_from re rep 0 s"

section \<open>Command names and their normalisation (ctl.ts)\<close>

datatype CommandName = Observe | Extract | Act

record PageFunction =
  name :: CommandName
  query :: string

definition command_text :: "CommandName \<Rightarrow> string" where
  "command_text k = (case k of Observe \<Rightarrow> ''observe'' | Extract \<Rightarrow> ''extract'' | Act \<Rightarrow> ''act'')"

definition re_wait :: regex where
  "re_wait = [[Bol, Lit ''wait'']]"

definition observe_words :: "string list" where
  "observe_words = [''ensure'', ''verify'', ''check'', ''confirm'']"

definition act_words :: "string list" where
  "act_words = [''click'', ''type'', ''press'', ''navigate'', ''open'', ''select'', ''submit'',
                ''scroll'', ''hover'']"

definition extract_words :: "string list" where
  "extract_words = [''read'', ''get'', ''scrape'', ''capture'', ''grab'', ''copy'', ''extract'']"

text \<open>\<open>/(w1|w2|...)/\<close>: one alternative for each word.\<close>

definition re_words :: "string list \<Rightarrow> regex" where
  "re_words ws = map (\<lambda>w. [Lit w]) ws"

definition normalizeCommandName :: "string \<Rightarrow> CommandName option" where
  "normalizeCommandName nm =
     (let n = trim (toLowerCase nm) in
      if n = ''observe'' then Some Observe
      else if n = ''extract'' then Some Extract
      else if n = ''act'' then Some Act
      else if re_test False re_wait n \<or> re_test False (re_words observe_words) n then Some Observe
      else if re_test False (re_words act_words) n then Some Act
      else if re_test False (re_words extract_words) n then Some Extract
      else None)"

section \<open>File names of the screenshots (ctl.ts)\<close>

definition lower_alnum :: "char list" where
  "lower_alnum = ''abcdefghijklmnopqrstuvwxyz0123456789''"

definition re_scheme :: regex where
  "re_scheme = [[Lit ''http'', Opt ''s'', Lit ''://'']]"

definition re_not_alnum :: regex where
  "re_not_alnum = [[One (CNot (COneOf lower_alnum)), Star (CNot (COneOf lower_alnum))]]"

definition re_edge_hyphens :: regex where
  "re_edge_hyphens = [[Bol, One (COneOf ''-''), Star (COneOf ''-'')],
                      [One (COneOf ''-''), Star (COneOf ''-''), Eol]]"

definition slugify :: "string \<Rightarrow> nat \<Rightarrow> string" where
  "slugify input maxLen =
     take maxLen
       (replace_all re_edge_hyphens ''''
         (replace_all re_not_alnum ''-''
           (replace_all re_scheme '''' (toLowerCase input))))"

text \<open>\<open>n.toString()\<close> of a non-negative integer: its decimal digits.\<close>

definition digit_char :: "nat \<Rightarrow> char" where
  "digit_char d = ''0123456789'' ! (d mod 10)"

function decimal :: "nat \<Rightarrow> string" where
  "decimal n = (if n < 10 then [digit_char n] else decimal (n div 10) @ [digit_char n])"
  by pat_completeness auto
termination
  by (relation "measure id") auto

declare decimal.simps [simp del]

definition padStart :: "nat \<Rightarrow> char \<Rightarrow> string \<Rightarrow> string" where
  "padStart width c s = replicate (width - length s) c @ s"

definition z :: "nat \<Rightarrow> nat \<Rightarrow> string" where
  "z n width = padStart width (CHR ''0'') (decimal n)"

text \<open>The file name that \<open>captureStepScreenshot\<close> builds for a step.\<close>

definition screenshot_name :: "nat \<Rightarrow> PageFunction \<Rightarrow> string" where
  "screenshot_name stepIndex step =
     z stepIndex 2 @ ''-'' @ command_text (name step) @ ''-'' @ slugify (query step) 60 @ ''.jpg''"

section \<open>Values of the run time and plan validation (ctl.ts)\<close>

text \<open>
  The values that \<open>JSON.parse\<close> returns, and \<open>undefined\<close> for what is absent. A number
  is carried by the text that \<open>String\<close> gives for it; an object by the list of its
  properties, read by name.
\<close>

datatype jsval =
    JUndefined
  | JNull
  | JBool bool
  | JNum string
  | JStr string
  | JArr "jsval list"
  | JObj "(string \<times> jsval) list"

text \<open>\<open>!v\<close>\<close>

fun js_falsy :: "jsval \<Rightarrow> bool" where
  "js_falsy JUndefined = True"
| "js_falsy JNull = True"
| "js_falsy (JBool b) = (\<not> b)"
| "js_falsy (JNum t) = (t = ''0'' \<or> t = ''NaN'')"
| "js_falsy (JStr s) = (s = [])"
| "js_falsy (JArr xs) = False"
| "js_falsy (JObj kvs) = False"

text \<open>\<open>typeof v === "object"\<close>\<close>

fun typeof_object :: "jsval \<Rightarrow> bool" where
  "typeof_object JNull = True"
| "typeof_object (JArr xs) = True"
| "typeof_object (JObj kvs) = True"
| "typeof_object v = False"

text \<open>\<open>typeof v === "string"\<close>\<close>

fun typeof_string :: "jsval \<Rightarrow> bool" where
  "typeof_string (JStr s) = True"
| "typeof_string v = False"

text \<open>\<open>Array.isArray(v)\<close>\<close>

fun isArray :: "jsval \<Rightarrow> bool" where
  "isArray (JArr xs) = True"
| "isArray v = False"

text \<open>\<open>v.k\<close> for a value that is neither \<open>null\<close> nor \<open>undefined\<close> and a name \<open>k\<close> among
  \<open>plan\<close>, \<open>name\<close>, \<open>query\<close>, \<open>message\<close>: an object has it or not; arrays and primitive
  values do not.\<close>

fun get_prop :: "jsval \<Rightarrow> string \<Rightarrow> jsval" where
  "get_prop (JObj kvs) k = (case map_of kvs k of Some v \<Rightarrow> v | None \<Rightarrow> JUndefined)"
| "get_prop v k = JUndefined"

text \<open>What the source throws. The index of a step error is the position in the plan
  array, from 0.\<close>

datatype error =
    PlanShapeError
  | StepNotObject nat
  | StepQueryError nat
  | StepNameError nat
  | JsonSyntaxError
  | NoCodeFence
  | NoCompletionMessage
  | CompletionRejected
  | TypeError
  | PlanningExhausted
  | MkdirRejected

text \<open>
  \<open>String(v)\<close>, as a template literal applies it; \<open>None\<close> when the conversion throws
  its \<open>TypeError\<close>. An array is rendered by \<open>join\<close>, where \<open>null\<close> and \<open>undefined\<close>
  are empty. An object is rendered by \<open>Object.prototype.toString\<close>, unless it has an own
  property \<open>toString\<close>: that property holds a value of this type and no function, the
  conversion goes on to \<open>valueOf\<close>, finds no primitive value and throws.
\<close>

fun js_String :: "jsval \<Rightarrow> string option"
  and js_join :: "jsval list \<Rightarrow> string option" where
  "js_String JUndefined = Some ''undefined''"
| "js_String JNull = Some ''null''"
| "js_String (JBool b) = Some (if b then ''true'' else ''false'')"
| "js_String (JNum t) = Some t"
| "js_String (JStr s) = Some s"
| "js_String (JArr xs) = js_join xs"
| "js_String (JObj kvs) =
     (if map_of kvs ''toString'' = None then Some ''[object Object]'' else None)"
| "js_join [] = Some []"
| "js_join [v] = (if v = JNull \<or> v = JUndefined then Some [] else js_String v)"
| "js_join (v # w # vs) =
     (case (if v = JNull \<or> v = JUndefined then Some [] else js_String v) of
        None \<Rightarrow> None
      | Some s \<Rightarrow>
          (case js_join (w # vs) of
             None \<Rightarrow> None
           | Some r \<Rightarrow> Some (s @ '','' @ r)))"

text \<open>The callback that \<open>validatePlan\<close> maps over the plan array. The text of the name
  error is a template literal that holds the name: a name that cannot be converted to a
  string makes the callback throw the \<open>TypeError\<close> of the conversion in place of the
  name error.\<close>

definition validate_step :: "jsval \<Rightarrow> nat \<Rightarrow> error + PageFunction" where
  "validate_step step idx =
     (if js_falsy step \<or> \<not> typeof_object step then Inl (StepNotObject idx)
      else
        let nm = get_prop step ''name''; q = get_prop step ''query'' in
        if js_falsy q \<or> \<not> typeof_string q then Inl (StepQueryError idx)
        else
          (case q of
             JStr qs \<Rightarrow>
               if nm = JStr ''observe'' then Inr \<lparr>name = Observe, query = qs\<rparr>
               else if nm = JStr ''extract'' then Inr \<lparr>name = Extract, query = qs\<rparr>
               else if nm = JStr ''act'' then Inr \<lparr>name = Act, query = qs\<rparr>
               else
                 (case (case nm of JStr s \<Rightarrow> normalizeCommandName s | _ \<Rightarrow> None) of
                    None \<Rightarrow>
                      (case js_String nm of
                         None \<Rightarrow> Inl TypeError
                       | Some shown \<Rightarrow> Inl (StepNameError idx))
                  | Some norm \<Rightarrow> Inr \<lparr>name = norm, query = qs\<rparr>)
           | _ \<Rightarrow> Inl (StepQueryError idx)))"

text \<open>\<open>Array.prototype.map\<close> with a callback that may throw: the elements in order from
  index \<open>idx\<close>, the first throw ends the whole call.\<close>

fun map_steps :: "jsval list \<Rightarrow> nat \<Rightarrow> error + PageFunction list" where
  "map_steps [] idx = Inr []"
| "map_steps (step # steps) idx =
     (case validate_step step idx of
        Inl e \<Rightarrow> Inl e
      | Inr pf \<Rightarrow>
          (case map_steps steps (Suc idx) of
             Inl e \<Rightarrow> Inl e
           | Inr pfs \<Rightarrow> Inr (pf # pfs)))"

definition validatePlan :: "jsval \<Rightarrow> error + PageFunction list" where
  "validatePlan raw =
     (if js_falsy raw \<or> \<not> typeof_object raw \<or> \<not> isArray (get_prop raw ''plan'')
      then Inl PlanShapeError
      else (case get_prop raw ''plan'' of
              JArr steps \<Rightarrow> map_steps steps 0
            | _ \<Rightarrow> Inl PlanShapeError))"

text \<open>The conditions of the specification. The top-level value is an object with an
  array in its field \<open>plan\<close>:\<close>

definition plan_array :: "jsval \<Rightarrow> jsval list option" where
  "plan_array raw =
     (case raw of
        JObj kvs \<Rightarrow> (case map_of kvs ''plan'' of Some (JArr steps) \<Rightarrow> Some steps | _ \<Rightarrow> None)
      | _ \<Rightarrow> None)"

text \<open>An element of the plan array is an object, has a non-empty string \<open>query\<close>, and
  has a name that is canonical or can be normalised:\<close>

definition is_js_object :: "jsval \<Rightarrow> bool" where
  "is_js_object v = (case v of JObj kvs \<Rightarrow> True | JArr xs \<Rightarrow> True | _ \<Rightarrow> False)"

definition step_has_query :: "jsval \<Rightarrow> bool" where
  "step_has_query v = (case get_prop v ''query'' of JStr q \<Rightarrow> q \<noteq> [] | _ \<Rightarrow> False)"

definition step_name_ok :: "jsval \<Rightarrow> bool" where
  "step_name_ok v =
     (case get_prop v ''name'' of
        JStr s \<Rightarrow> s = ''observe'' \<or> s = ''extract'' \<or> s = ''act''
                  \<or> normalizeCommandName s \<noteq> None
      | _ \<Rightarrow> False)"

definition step_ok :: "jsval \<Rightarrow> bool" where
  "step_ok v = (is_js_object v \<and> step_has_query v \<and> step_name_ok v)"

text \<open>The error that the specification asks for at the first offending element.\<close>

definition step_fault :: "jsval \<Rightarrow> nat \<Rightarrow> error" where
  "step_fault v i =
     (if \<not> is_js_object v then StepNotObject i
      else if \<not> step_has_query v then StepQueryError i
      else StepNameError i)"

text \<open>What the code throws at the first offending element: the error that the
  specification asks for, except that an offending name that cannot be converted to a
  string gives the \<open>TypeError\<close> of the conversion.\<close>

definition name_converts :: "jsval \<Rightarrow> bool" where
  "name_converts v = (js_String (get_prop v ''name'') \<noteq> None)"

definition step_throws :: "jsval \<Rightarrow> nat \<Rightarrow> error" where
  "step_throws v i =
     (if step_fault v i = StepNameError i \<and> \<not> name_converts v then TypeError
      else step_fault v i)"

text \<open>The command name that a valid element is given.\<close>

definition step_kind :: "jsval \<Rightarrow> CommandName" where
  "step_kind v =
     (case get_prop v ''name'' of
        JStr s \<Rightarrow>
          if s = ''observe'' then Observe else if s = ''extract'' then Extract
          else if s = ''act'' then Act
          else (case normalizeCommandName s of Some k \<Rightarrow> k | None \<Rightarrow> Observe)
      | _ \<Rightarrow> Observe)"

definition step_query :: "jsval \<Rightarrow> string" where
  "step_query v = (case get_prop v ''query'' of JStr q \<Rightarrow> q | _ \<Rightarrow> [])"

section \<open>The final output (web-automation.ts)\<close>

text \<open>\<open>xs[i]\<close>: the element, or \<open>undefined\<close> (here \<open>None\<close>) out of range.\<close>

definition js_index :: "'a list \<Rightarrow> nat \<Rightarrow> 'a option" where
  "js_index xs i = (if i < length xs then Some (xs ! i) else None)"

definition re_extracted :: regex where
  "re_extracted = [[Bol, Lit ''EXTRACTED('', One (CNot (COneOf '')'')), Star (CNot (COneOf '')'')),
                    Lit '')'', Star CWs, Lit ''=>'', Star CWs]]"

definition re_found_text :: regex where
  "re_found_text = [[Bol, Lit ''Found text content:'', Star CWs]]"

definition re_headline :: regex where
  "re_headline = [[Bol, Lit ''Headline:'', Star CWs]]"

definition re_temperature :: regex where
  "re_temperature = [[Bol, Lit ''Current temperature:'', Star CWs]]"

definition re_high_low :: regex where
  "re_high_low = [[Bol, Lit ''High/Low temperatures:'', Star CWs]]"

text \<open>The chain of replacements on the output of the chosen step, and the final \<open>trim()\<close>.\<close>

definition clean_output :: "string \<Rightarrow> string" where
  "clean_output out =
     trim (replace_first re_high_low ''''
       (replace_first re_temperature ''''
         (replace_first re_headline ''''
           (replace_first re_found_text ''''
             (replace_first re_extracted '''' out)))))"

text \<open>The test \<open>cleanOutput && cleanOutput.length > 10 && !cleanOutput.includes('(not found')\<close>.\<close>

definition still_meaningful :: "string \<Rightarrow> bool" where
  "still_meaningful c = (c \<noteq> [] \<and> length c > 10 \<and> \<not> js_includes c ''(not found'')"

text \<open>The filter of the fallback.\<close>

definition meaningful_output :: "string \<Rightarrow> bool" where
  "meaningful_output out =
     (js_includes out ''NAVIGATED(''
      \<or> (length out > 20 \<and> \<not> js_includes out ''ACTION_OK'' \<and> \<not> js_includes out ''Observed:''))"

definition fallback_output :: "string list \<Rightarrow> string" where
  "fallback_output outputs =
     (let meaningfulOutputs = filter meaningful_output outputs in
      if length meaningfulOutputs > 0 then meaningfulOutputs ! (length meaningfulOutputs - 1)
      else ''Task completed successfully - no specific content extracted'')"

text \<open>\<open>extractSteps\<close>: the steps with their index and output, the extract steps kept, the
  list reversed.\<close>

definition extractSteps :: "PageFunction list \<Rightarrow> string list \<Rightarrow> (PageFunction \<times> nat \<times> string option) list" where
  "extractSteps plan outputs =
     rev (filter (\<lambda>(step, index, output). name step = Extract)
            (map (\<lambda>(step, index). (step, index, js_index outputs index))
               (zip plan [0..<length plan])))"

text \<open>A method call on an output that is \<open>undefined\<close> throws a \<open>TypeError\<close>.\<close>

definition extractFinalOutput :: "PageFunction list \<Rightarrow> string list \<Rightarrow> error + string" where
  "extractFinalOutput plan outputs =
     (let es = extractSteps plan outputs in
      if length es > 0
      then (case hd es of
              (step, index, None) \<Rightarrow> Inl TypeError
            | (step, index, Some out) \<Rightarrow>
                let cleanOutput = clean_output out in
                if still_meaningful cleanOutput then Inr cleanOutput
                else Inr (fallback_output outputs))
      else Inr (fallback_output outputs))"

text \<open>The index of the most recent extract step of a plan.\<close>

definition last_extract :: "PageFunction list \<Rightarrow> nat \<Rightarrow> bool" where
  "last_extract plan i =
     (i < length plan \<and> name (plan ! i) = Extract
      \<and> list_all (\<lambda>j. name (plan ! j) \<noteq> Extract) [Suc i..<length plan])"

section \<open>The capability provider and the step executor (ctl.ts)\<close>

text \<open>\<open>JSON.stringify\<close> of a string: the quotation mark, the backslash and the control
  characters are escaped, every other code unit of the range stands for itself.\<close>

definition json_escapes :: "(char \<times> string) list" where
  "json_escapes =
     [(CHR 0x00, CHR 0x5C # ''u0000''),
      (CHR 0x01, CHR 0x5C # ''u0001''),
      (CHR 0x02, CHR 0x5C # ''u0002''),
      (CHR 0x03, CHR 0x5C # ''u0003''),
      (CHR 0x04, CHR 0x5C # ''u0004''),
      (CHR 0x05, CHR 0x5C # ''u0005''),
      (CHR 0x06, CHR 0x5C # ''u0006''),
      (CHR 0x07, CHR 0x5C # ''u0007''),
      (CHR 0x08, [CHR 0x5C, CHR ''b'']),
      (CHR 0x09, [CHR 0x5C, CHR ''t'']),
      (CHR 0x0A, [CHR 0x5C, CHR ''n'']),
      (CHR 0x0B, CHR 0x5C # ''u000b''),
      (CHR 0x0C, [CHR 0x5C, CHR ''f'']),
      (CHR 0x0D, [CHR 0x5C, CHR ''r'']),
      (CHR 0x0E, CHR 0x5C # ''u000e''),
      (CHR 0x0F, CHR 0x5C # ''u000f''),
      (CHR 0x10, CHR 0x5C # ''u0010''),
      (CHR 0x11, CHR 0x5C # ''u0011''),
      (CHR 0x12, CHR 0x5C # ''u0012''),
      (CHR 0x13, CHR 0x5C # ''u0013''),
      (CHR 0x14, CHR 0x5C # ''u0014''),
      (CHR 0x15, CHR 0x5C # ''u0015''),
      (CHR 0x16, CHR 0x5C # ''u0016''),
      (CHR 0x17, CHR 0x5C # ''u0017''),
      (CHR 0x18, CHR 0x5C # ''u0018''),
      (CHR 0x19, CHR 0x5C # ''u0019''),
      (CHR 0x1A, CHR 0x5C # ''u001a''),
      (CHR 0x1B, CHR 0x5C # ''u001b''),
      (CHR 0x1C, CHR 0x5C # ''u001c''),
      (CHR 0x1D, CHR 0x5C # ''u001d''),
      (CHR 0x1E, CHR 0x5C # ''u001e''),
      (CHR 0x1F, CHR 0x5C # ''u001f''),
      (CHR 0x22, [CHR 0x5C, CHR 0x22]),
      (CHR 0x5C, [CHR 0x5C, CHR 0x5C])]"

definition json_escape_char :: "char \<Rightarrow> string" where
  "json_escape_char c = (case map_of json_escapes c of Some e \<Rightarrow> e | None \<Rightarrow> [c])"

definition JSON_quote :: "string \<Rightarrow> string" where
  "JSON_quote s = [CHR 0x22] @ concat (map json_escape_char s) @ [CHR 0x22]"

text \<open>
  \<open>JSON.stringify\<close> of a value that stands in an array or is the value of a property. A
  number that is not finite and \<open>undefined\<close> in an array are \<open>null\<close>; a property whose
  value is \<open>undefined\<close> is left out; the properties of an object come in the order of
  the list, which names each property once.
\<close>

fun JSON_value :: "jsval \<Rightarrow> string"
  and JSON_elements :: "jsval list \<Rightarrow> string"
  and JSON_properties :: "(string \<times> jsval) list \<Rightarrow> string" where
  "JSON_value JUndefined = ''null''"
| "JSON_value JNull = ''null''"
| "JSON_value (JBool b) = (if b then ''true'' else ''false'')"
| "JSON_value (JNum t) =
     (if t = ''NaN'' \<or> t = ''Infinity'' \<or> t = ''-Infinity'' then ''null'' else t)"
| "JSON_value (JStr s) = JSON_quote s"
| "JSON_value (JArr xs) = ''['' @ JSON_elements xs @ '']''"
| "JSON_value (JObj kvs) = ''{'' @ JSON_properties kvs @ ''}''"
| "JSON_elements [] = []"
| "JSON_elements [v] = JSON_value v"
| "JSON_elements (v # w # vs) = JSON_value v @ '','' @ JSON_elements (w # vs)"
| "JSON_properties [] = []"
| "JSON_properties ((k, v) # kvs) =
     (if v = JUndefined then JSON_properties kvs
      else JSON_quote k @ '':'' @ JSON_value v
           @ (if JSON_properties kvs = [] then [] else '','' @ JSON_properties kvs))"

text \<open>\<open>JSON.stringify({ error: v })\<close>\<close>

definition json_error :: "jsval \<Rightarrow> string" where
  "json_error v = JSON_value (JObj [(''error'', v)])"

text \<open>
  What a rejected call carries. A promise can be rejected with any value: with an
  \<open>Error\<close>, which has a name and a message, or with another value. Of the other values
  those of the type \<^typ>\<open>jsval\<close> are modelled: \<open>undefined\<close>, \<open>null\<close>, booleans, numbers,
  strings, arrays and plain objects. \<open>String(err)\<close> of an \<open>Error\<close> is
  \<open>Error.prototype.toString\<close>.
\<close>

record js_error =
  err_name :: string
  err_message :: string

datatype rejection = ErrorObject js_error | OtherValue jsval

definition error_to_string :: "js_error \<Rightarrow> string" where
  "error_to_string e =
     (if err_name e = [] then err_message e
      else if err_message e = [] then err_name e
      else err_name e @ '': '' @ err_message e)"

text \<open>\<open>(err as Error).message\<close>: the cast changes nothing at run time. Reading a property
  of \<open>undefined\<close> or \<open>null\<close> throws a \<open>TypeError\<close>; a value without the property gives
  \<open>undefined\<close>.\<close>

definition read_message :: "rejection \<Rightarrow> error + jsval" where
  "read_message err =
     (case err of
        ErrorObject e \<Rightarrow> Inr (JStr (err_message e))
      | OtherValue v \<Rightarrow>
          if v = JUndefined \<or> v = JNull then Inl TypeError else Inr (get_prop v ''message''))"

text \<open>\<open>String(err)\<close>\<close>

definition rejection_to_string :: "rejection \<Rightarrow> error + string" where
  "rejection_to_string err =
     (case err of
        ErrorObject e \<Rightarrow> Inr (error_to_string e)
      | OtherValue v \<Rightarrow> (case js_String v of None \<Rightarrow> Inl TypeError | Some s \<Rightarrow> Inr s))"

text \<open>\<open>(err as Error).message || String(err)\<close>, as both \<open>catch\<close> blocks of the source
  evaluate it: the message when it is truthy, else the conversion of the whole value.
  Either part can throw, and nothing catches that.\<close>

definition error_text :: "rejection \<Rightarrow> error + jsval" where
  "error_text err =
     (case read_message err of
        Inl e \<Rightarrow> Inl e
      | Inr m \<Rightarrow>
          if js_falsy m
          then (case rejection_to_string err of Inl e \<Rightarrow> Inl e | Inr s \<Rightarrow> Inr (JStr s))
          else Inr m)"

text \<open>The values for which the expression has a value, so that the \<open>catch\<close> block
  completes.\<close>

definition renderable :: "rejection \<Rightarrow> bool" where
  "renderable err = (case error_text err of Inl e \<Rightarrow> False | Inr t \<Rightarrow> True)"

datatype outcome = Resolved string | Rejected rejection

text \<open>
  The capability provider works on a live page: what a call returns may depend on every
  call made before. It is a function of the calls made so far, oldest first, and of the
  present call. The log of calls is the state that the executor and the planner thread
  through; it counts the invocations.
\<close>

type_synonym call = "CommandName \<times> string"

type_synonym provider = "call list \<Rightarrow> call \<Rightarrow> outcome"

text \<open>\<open>invokeStagehand\<close>: the call is dispatched on the command name; a rejection is
  caught and returned as a JSON text, unless the \<open>catch\<close> block itself throws. The
  \<open>default\<close> branch of the source is not reachable for a value of type \<open>CommandName\<close>.
  The result comes with the log of calls, in which the call is entered in either case.\<close>

definition invokeStagehand :: "provider \<Rightarrow> call list \<Rightarrow> CommandName \<Rightarrow> string \<Rightarrow> (error + string) \<times> call list" where
  "invokeStagehand sh log nm q =
     (case sh log (nm, q) of
        Resolved res \<Rightarrow> (Inr res, log @ [(nm, q)])
      | Rejected err \<Rightarrow>
          (case error_text err of
             Inl e \<Rightarrow> (Inl e, log @ [(nm, q)])
           | Inr t \<Rightarrow> (Inr (json_error t), log @ [(nm, q)])))"

text \<open>
  The transcript of a negotiation. A tool call of the model has an id, a function name
  (it may be absent) and the text of its arguments (empty when absent). The two prompts
  that open the transcript are fixed texts, the second with the task inserted; only the
  model reads them.
\<close>

record tool_call =
  tc_id :: string
  tc_name :: "string option"
  tc_arguments :: string

datatype message =
    SystemPrompt
  | UserPrompt string
  | AssistantCalls "tool_call list"
  | ToolMsg string string string
  | AssistantMsg string

text \<open>What a completion request gives: a rejection, no message, or a message with its
  tool calls (\<open>msg.tool_calls ?? []\<close>) and its content (\<open>null\<close> is \<open>None\<close>).\<close>

datatype completion =
    CompletionFails
  | NoMessage
  | Message "tool_call list" "string option"

text \<open>
  The surroundings of a run: the provider; the model, which answers round \<open>iter\<close> on the
  transcript so far; \<open>JSON.parse\<close> of the run time (\<open>None\<close> when it throws); whether
  \<open>fs.mkdir\<close> of the screenshot directory resolves; what \<open>page.screenshot\<close> does for a
  path (\<open>None\<close> when it resolves, else the value it rejects with); the directory and
  \<open>path.join\<close>.
\<close>

record env =
  stagehand :: provider
  llm :: "nat \<Rightarrow> message list \<Rightarrow> completion"
  JSON_parse :: "string \<Rightarrow> jsval option"
  mkdir_resolves :: bool
  page_screenshot :: "string \<Rightarrow> rejection option"
  screenshotDir :: string
  path_join :: "string \<Rightarrow> string \<Rightarrow> string"

text \<open>\<open>captureStepScreenshot\<close>: the path on success. When the screenshot fails the
  \<open>catch\<close> block logs the text of the rejection and returns \<open>null\<close> (here \<open>None\<close>); when
  that text cannot be had, the block throws.\<close>

definition captureStepScreenshot :: "env \<Rightarrow> nat \<Rightarrow> PageFunction \<Rightarrow> error + string option" where
  "captureStepScreenshot ev stepIndex step =
     (let fname = screenshot_name stepIndex step;
          fpath = path_join ev (screenshotDir ev) fname
      in case page_screenshot ev fpath of
           None \<Rightarrow> Inr (Some fpath)
         | Some err \<Rightarrow> (case error_text err of Inl e \<Rightarrow> Inl e | Inr t \<Rightarrow> Inr None))"

text \<open>The state of the loop of \<open>execute\<close>: the outputs pushed so far, the calls made on
  the provider, and what each screenshot request returned.\<close>

record exec_state =
  ex_outputs :: "string list"
  ex_calls :: "call list"
  ex_saved :: "string option list"

text \<open>\<open>for (let i = 0; i < plan.length; i++)\<close>, on the steps from index \<open>i\<close> on. What
  \<open>invokeStagehand\<close> or \<open>captureStepScreenshot\<close> throws leaves the loop and
  \<open>execute\<close>.\<close>

fun exec_loop :: "env \<Rightarrow> PageFunction list \<Rightarrow> nat \<Rightarrow> exec_state \<Rightarrow> error + exec_state" where
  "exec_loop ev [] i st = Inr st"
| "exec_loop ev (step # steps) i st =
     (case invokeStagehand (stagehand ev) (ex_calls st) (name step) (query step) of
        (Inl e, log) \<Rightarrow> Inl e
      | (Inr res, log) \<Rightarrow>
          (case captureStepScreenshot ev (i + 1) step of
             Inl e \<Rightarrow> Inl e
           | Inr saved \<Rightarrow>
               exec_loop ev steps (Suc i)
                 \<lparr>ex_outputs = ex_outputs st @ [res], ex_calls = log,
                  ex_saved = ex_saved st @ [saved]\<rparr>))"

text \<open>\<open>execute\<close>, from the log of the calls made before it: the rejection of \<open>fs.mkdir\<close>
  is not caught.\<close>

definition execute :: "env \<Rightarrow> call list \<Rightarrow> PageFunction list \<Rightarrow> error + exec_state" where
  "execute ev log plan =
     (if mkdir_resolves ev
      then exec_loop ev plan 0 \<lparr>ex_outputs = [], ex_calls = log, ex_saved = []\<rparr>
      else Inl MkdirRejected)"





section \<open>The planning loop (ctl.ts)\<close>

definition re_fence :: regex where
  "re_fence = [[Lit ''```'', Opt ''json'', Star CWs, Lazy CAny, Star CWs, Lit ''```'']]"

text \<open>\<open>safeParsePlan\<close>: the whole content first; then the inside of the first code
  fence, matched with the flag \<open>i\<close>; an empty group counts as no fence.\<close>

definition safeParsePlan :: "env \<Rightarrow> string \<Rightarrow> error + jsval" where
  "safeParsePlan ev content =
     (case JSON_parse ev content of
        Some v \<Rightarrow> Inr v
      | None \<Rightarrow>
          (case re_group1 True re_fence content of
             Some g \<Rightarrow>
               if g \<noteq> []
               then (case JSON_parse ev g of Some v \<Rightarrow> Inr v | None \<Rightarrow> Inl JsonSyntaxError)
               else Inl NoCodeFence
           | None \<Rightarrow> Inl NoCodeFence))"

text \<open>
  The state of one call of \<open>plan\<close>: the transcript, the cache of read results with its
  keys \<open>name::query\<close>, the flag that asks for the cache to be cleared before the next
  read, the calls made on the provider, and the number of completions requested.
\<close>

record plan_state =
  messages :: "message list"
  cache :: "string \<rightharpoonup> string"
  clearCacheBeforeNextRead :: bool
  invoked :: "call list"
  completions :: nat

text \<open>How a round, or a tool call inside it, ends: the loop goes on, \<open>plan\<close> returns, or
  \<open>plan\<close> throws.\<close>

datatype outcome_of_round =
    Next plan_state
  | Return "PageFunction list" plan_state
  | Throw error plan_state

definition push :: "message \<Rightarrow> plan_state \<Rightarrow> plan_state" where
  "push m st = st\<lparr>messages := messages st @ [m]\<rparr>"

definition command_of :: "string \<Rightarrow> CommandName option" where
  "command_of n =
     (if n = ''observe'' then Some Observe else if n = ''extract'' then Some Extract
      else if n = ''act'' then Some Act else None)"

text \<open>\<open>tc.function?.arguments ? JSON.parse(tc.function.arguments) : {}\<close>\<close>

definition parse_arguments :: "env \<Rightarrow> tool_call \<Rightarrow> jsval option" where
  "parse_arguments ev tc =
     (if tc_arguments tc \<noteq> [] then JSON_parse ev (tc_arguments tc) else Some (JObj []))"

text \<open>\<open>args.query ?? ""\<close>, and its conversion to a string in the template literal of the
  cache key; \<open>None\<close> when a \<open>TypeError\<close> is thrown: reading a property of \<open>null\<close>
  throws, and so does the conversion of a query that has no string form. The source
  passes the value on as it is; a query that is present and not a string is carried
  here by its \<open>String\<close> rendering, which is what the cache key is built from.\<close>

definition query_of :: "jsval \<Rightarrow> string option" where
  "query_of args =
     (if args = JNull \<or> args = JUndefined then None
      else (let q = get_prop args ''query'' in
            if q = JNull \<or> q = JUndefined then Some [] else js_String q))"

definition unknown_tool_text :: "string option \<Rightarrow> string" where
  "unknown_tool_text fnName =
     ''{'' @ [CHR 0x22] @ ''error'' @ [CHR 0x22] @ '':'' @ [CHR 0x22] @ ''Unknown tool ''
     @ [CHR 0x27] @ (case fnName of None \<Rightarrow> ''undefined'' | Some n \<Rightarrow> n) @ [CHR 0x27]
     @ ''.'' @ [CHR 0x22] @ ''}''"

definition received_text :: string where
  "received_text = ''{'' @ [CHR 0x22] @ ''status'' @ [CHR 0x22] @ '':'' @ [CHR 0x22]
     @ ''received'' @ [CHR 0x22] @ ''}''"

text \<open>The body of \<open>for (const tc of toolCalls)\<close>.\<close>

definition handle_tool_call :: "env \<Rightarrow> plan_state \<Rightarrow> tool_call \<Rightarrow> outcome_of_round" where
  "handle_tool_call ev st tc =
     (case parse_arguments ev tc of
        None \<Rightarrow> Throw JsonSyntaxError st
      | Some args \<Rightarrow>
          if tc_name tc = Some ''finalize_plan''
          then (case validatePlan args of
                  Inl e \<Rightarrow> Throw e st
                | Inr p \<Rightarrow> Return p (push (ToolMsg (tc_id tc) ''finalize_plan'' received_text) st))
          else
            let validName = toLowerCase (case tc_name tc of None \<Rightarrow> [] | Some n \<Rightarrow> n) in
            (case command_of validName of
               None \<Rightarrow>
                 Next (push (ToolMsg (tc_id tc)
                               (case tc_name tc of None \<Rightarrow> ''unknown'' | Some n \<Rightarrow> n)
                               (unknown_tool_text (tc_name tc))) st)
             | Some kind \<Rightarrow>
                 (case query_of args of
                    None \<Rightarrow> Throw TypeError st
                  | Some q \<Rightarrow>
                      let key = validName @ ''::'' @ q;
                          st1 = (if (kind = Observe \<or> kind = Extract) \<and> clearCacheBeforeNextRead st
                                 then st\<lparr>cache := Map.empty, clearCacheBeforeNextRead := False\<rparr>
                                 else st)
                      in
                      if (kind = Observe \<or> kind = Extract) \<and> cache st1 key \<noteq> None
                      then Next (push (ToolMsg (tc_id tc) validName (the (cache st1 key))) st1)
                      else
                        (case invokeStagehand (stagehand ev) (invoked st1) kind q of
                           (Inl e, log) \<Rightarrow> Throw e (st1\<lparr>invoked := log\<rparr>)
                         | (Inr result, log) \<Rightarrow>
                             let st2 = st1\<lparr>invoked := log\<rparr>;
                                 st3 = (if kind = Act then st2\<lparr>clearCacheBeforeNextRead := True\<rparr>
                                        else st2\<lparr>cache := (cache st2)(key \<mapsto> result)\<rparr>)
                             in Next (push (ToolMsg (tc_id tc) validName result) st3)))))"

fun handle_tool_calls :: "env \<Rightarrow> plan_state \<Rightarrow> tool_call list \<Rightarrow> outcome_of_round" where
  "handle_tool_calls ev st [] = Next st"
| "handle_tool_calls ev st (tc # tcs) =
     (case handle_tool_call ev st tc of
        Next st' \<Rightarrow> handle_tool_calls ev st' tcs
      | Return p st' \<Rightarrow> Return p st'
      | Throw e st' \<Rightarrow> Throw e st')"

text \<open>The body of the loop of \<open>plan\<close>, for the round \<open>iter\<close>.\<close>

definition plan_round :: "env \<Rightarrow> nat \<Rightarrow> plan_state \<Rightarrow> outcome_of_round" where
  "plan_round ev iter st =
     (let st0 = st\<lparr>completions := Suc (completions st)\<rparr> in
      case llm ev iter (messages st) of
        CompletionFails \<Rightarrow> Throw CompletionRejected st0
      | NoMessage \<Rightarrow> Throw NoCompletionMessage st0
      | Message toolCalls content \<Rightarrow>
          if length toolCalls > 0
          then handle_tool_calls ev (push (AssistantCalls toolCalls) st0) toolCalls
          else
            (case content of
               Some c \<Rightarrow>
                 if length (trim c) > 0
                 then (case safeParsePlan ev c of
                         Inl e \<Rightarrow> Throw e st0
                       | Inr parsed \<Rightarrow>
                           (case validatePlan parsed of
                              Inl e \<Rightarrow> Throw e st0
                            | Inr p \<Rightarrow> Return p st0))
                 else Next (push (AssistantMsg c) st0)
             | None \<Rightarrow> Next (push (AssistantMsg []) st0)))"

text \<open>\<open>for (let iter = 0; iter < 16; iter++)\<close>, and the throw after it.\<close>

function plan_loop :: "env \<Rightarrow> nat \<Rightarrow> plan_state \<Rightarrow> outcome_of_round" where
  "plan_loop ev iter st =
     (if iter < 16
      then (case plan_round ev iter st of
              Next st' \<Rightarrow> plan_loop ev (Suc iter) st'
            | Return p st' \<Rightarrow> Return p st'
            | Throw e st' \<Rightarrow> Throw e st')
      else Throw PlanningExhausted st)"
  by pat_completeness auto
termination
  by (relation "measure (\<lambda>(ev, iter, st). 16 - iter)") auto

declare plan_loop.simps [simp del]

text \<open>The state in which \<open>plan\<close> starts, after the calls \<open>log\<close> made on the provider
  before it.\<close>

definition initial_state :: "string \<Rightarrow> call list \<Rightarrow> plan_state" where
  "initial_state task log =
     \<lparr>messages = [SystemPrompt, UserPrompt task], cache = Map.empty,
      clearCacheBeforeNextRead = False, invoked = log, completions = 0\<rparr>"

definition plan :: "env \<Rightarrow> string \<Rightarrow> outcome_of_round" where
  "plan ev task = plan_loop ev 0 (initial_state task [])"

text \<open>\<open>navigate\<close>: plan, then execute on the same provider. (\<open>plan\<close> ends with a plan
  or an error, never with \<open>Next\<close>.)\<close>

definition navigate :: "env \<Rightarrow> string \<Rightarrow> error + (PageFunction list \<times> string list)" where
  "navigate ev task =
     (case plan ev task of
        Return p st \<Rightarrow>
          (case execute ev (invoked st) p of
             Inl e \<Rightarrow> Inl e
           | Inr ex \<Rightarrow> Inr (p, ex_outputs ex))
      | Throw e st \<Rightarrow> Inl e
      | Next st \<Rightarrow> Inl PlanningExhausted)"

text \<open>A tool call that lets the round go on, as far as the call itself decides it: its
  arguments parse, it is not the finalize tool, and, when it names a capability, its
  arguments are not \<open>null\<close> and its query has a string form.\<close>

definition call_goes_on :: "env \<Rightarrow> tool_call \<Rightarrow> bool" where
  "call_goes_on ev tc =
     (case parse_arguments ev tc of
        None \<Rightarrow> False
      | Some args \<Rightarrow>
          tc_name tc \<noteq> Some ''finalize_plan''
          \<and> (command_of (toLowerCase (case tc_name tc of None \<Rightarrow> [] | Some n \<Rightarrow> n)) = None
              \<or> query_of args \<noteq> None))"

text \<open>A response that neither finalises a plan nor makes \<open>plan\<close> throw: tool calls that
  all let the round go on, or no tool call and a content that is absent, empty or white
  space only.\<close>

definition response_goes_on :: "env \<Rightarrow> completion \<Rightarrow> bool" where
  "response_goes_on ev resp =
     (case resp of
        Message toolCalls content \<Rightarrow>
          if length toolCalls > 0 then list_all (call_goes_on ev) toolCalls
          else (case content of None \<Rightarrow> True | Some c \<Rightarrow> trim c = [])
      | _ \<Rightarrow> False)"








section \<open>Examples of surroundings\<close>

text \<open>A provider whose observations time out, on a page where every other call
  succeeds and an extraction tells how many calls came before it.\<close>

definition example_provider :: provider where
  "example_provider log c =
     (case c of
        (Observe, q) \<Rightarrow>
          Rejected (ErrorObject \<lparr>err_name = ''TimeoutError'', err_message = ''Timeout 30000ms exceeded''\<rparr>)
      | (Extract, q) \<Rightarrow> Resolved (''Top heading: Example Domain (after '' @ decimal (length log) @ '' calls)'')
      | (Act, q) \<Rightarrow> Resolved (''ACTION_OK('' @ q @ '')''))"

text \<open>The same page behind a provider that rejects an observation without a reason,
  as \<open>reject()\<close> does: the value is \<open>undefined\<close>.\<close>

definition provider_no_reason :: provider where
  "provider_no_reason log c =
     (case c of
        (Observe, q) \<Rightarrow> Rejected (OtherValue JUndefined)
      | _ \<Rightarrow> example_provider log c)"

text \<open>\<open>JSON.parse\<close> on the texts of the examples: these three are JSON, every other text
  that an example hands to it is not.\<close>

definition example_parse :: "string \<Rightarrow> jsval option" where
  "example_parse =
     map_of
       [(''{\"query\":\"the top heading\"}'', JObj [(''query'', JStr ''the top heading'')]),
        (''{\"query\":\"click the login button\"}'', JObj [(''query'', JStr ''click the login button'')]),
        (''{\"plan\":[]}'', JObj [(''plan'', JArr [])])]"

text \<open>A model that asks for the same extraction in every round and never finalises.\<close>

definition extract_call :: tool_call where
  "extract_call = \<lparr>tc_id = ''call_1'', tc_name = Some ''extract'',
                    tc_arguments = ''{\"query\":\"the top heading\"}''\<rparr>"


definition example_env :: env where
  "example_env =
     \<lparr>stagehand = example_provider,
      llm = (\<lambda>iter msgs. Message [extract_call] None),
      JSON_parse = example_parse,
      mkdir_resolves = True, page_screenshot = (\<lambda>p. None),
      screenshotDir = ''./debug_screenshots'', path_join = (\<lambda>d f. d @ ''/'' @ f)\<rparr>"



text \<open>A model that asks for the same observation in every round.\<close>

definition observe_call :: tool_call where
  "observe_call = \<lparr>tc_id = ''call_3'', tc_name = Some ''observe'',
                    tc_arguments = ''{\"query\":\"the top heading\"}''\<rparr>"

definition llm_observes :: "nat \<Rightarrow> message list \<Rightarrow> completion" where
  "llm_observes iter msgs = Message [observe_call] None"

text \<open>A model that answers in plain words, and one that stays silent in the first round
  and then sends a code fence with no JSON in it.\<close>

definition llm_plain_words :: "nat \<Rightarrow> message list \<Rightarrow> completion" where
  "llm_plain_words iter msgs = Message [] (Some ''I could not find a plan yet.'')"

definition llm_bad_fence :: "nat \<Rightarrow> message list \<Rightarrow> completion" where
  "llm_bad_fence iter msgs =
     (if iter = 0 then Message [] None else Message [] (Some ''```json {plan: } ```''))"



text \<open>The error that an outcome throws, if it throws, and the state it ends in.\<close>

definition thrown :: "outcome_of_round \<Rightarrow> error option" where
  "thrown r = (case r of Throw e st \<Rightarrow> Some e | _ \<Rightarrow> None)"

definition final_state :: "outcome_of_round \<Rightarrow> plan_state" where
  "final_state r = (case r of Next st \<Rightarrow> st | Return p st \<Rightarrow> st | Throw e st \<Rightarrow> st)"

section \<open>Facts about strings and patterns\<close>

lemma starts_with_prefix: "starts_with w s = prefix w s"
  by (induction w s rule: starts_with.induct) auto

lemma js_includes_sublist: "js_includes s w = sublist w s"
  by (induction s) (auto simp: starts_with_prefix sublist_Cons_right)

lemma lit_rest_exact: "lit_rest False w s = (if prefix w s then Some (drop (length w) s) else None)"
proof (induction w arbitrary: s)
  case Nil
  then show ?case by simp
next
  case (Cons a w)
  then show ?case by (cases s) auto
qed

lemma re_match_word:
  "re_match False i [Lit w] s = (if prefix w s then Some ([], drop (length w) s) else None)"
  by (simp add: lit_rest_exact)

lemma re_alts_words:
  "(re_alts False i (re_words ws) s \<noteq> None) = (\<exists>w\<in>set ws. prefix w s)"
  by (induction ws) (auto simp: re_words_def re_match_word simp del: re_match.simps)

lemma re_search_words:
  "(re_search False (re_words ws) i s \<noteq> None) = (\<exists>w\<in>set ws. sublist w s)"
proof (induction s arbitrary: i)
  case Nil
  have "(re_alts False i (re_words ws) [] \<noteq> None) = (\<exists>w\<in>set ws. prefix w [])"
    by (rule re_alts_words)
  then show ?case by (auto split: option.splits)
next
  case (Cons c cs)
  have a: "(re_alts False i (re_words ws) (c # cs) \<noteq> None) = (\<exists>w\<in>set ws. prefix w (c # cs))"
    by (rule re_alts_words)
  have b: "(re_search False (re_words ws) (Suc i) cs \<noteq> None) = (\<exists>w\<in>set ws. sublist w cs)"
    by (rule Cons.IH)
  show ?case
  proof (cases "re_alts False i (re_words ws) (c # cs)")
    case None
    with a have na: "\<not> (\<exists>w\<in>set ws. prefix w (c # cs))" by simp
    show ?thesis
    proof (cases "re_search False (re_words ws) (Suc i) cs")
      case None
      with b have "\<not> (\<exists>w\<in>set ws. sublist w cs)" by simp
      with na None \<open>re_alts False i (re_words ws) (c # cs) = None\<close> show ?thesis
        by (auto simp: sublist_Cons_right)
    next
      case (Some r)
      with b have "\<exists>w\<in>set ws. sublist w cs" by simp
      with Some \<open>re_alts False i (re_words ws) (c # cs) = None\<close> show ?thesis
        by (auto simp: sublist_Cons_right split: prod.splits)
    qed
  next
    case (Some r)
    with a have "\<exists>w\<in>set ws. prefix w (c # cs)" by simp
    with Some show ?thesis by (auto simp: sublist_Cons_right split: prod.splits)
  qed
qed

lemma re_test_words: "re_test False (re_words ws) s = (\<exists>w\<in>set ws. sublist w s)"
  unfolding re_test_def by (rule re_search_words)

lemma re_search_wait_later: "re_search False re_wait (Suc i) s = None"
  by (induction s arbitrary: i) (auto simp: re_wait_def)

lemma re_alts_wait:
  "re_alts False 0 re_wait s = (if prefix ''wait'' s then Some ([], drop (length ''wait'') s) else None)"
  by (simp add: re_wait_def lit_rest_exact)

lemma re_test_wait: "re_test False re_wait s = prefix ''wait'' s"
proof (cases s)
  case Nil
  then show ?thesis by (simp add: re_test_def re_alts_wait)
next
  case (Cons c cs)
  then show ?thesis
    by (simp add: re_test_def re_search_wait_later re_alts_wait)
qed

lemma dropWhile_keeps_sublist:
  assumes "sublist w s" "w \<noteq> []" "\<not> P (hd w)"
  shows "sublist w (dropWhile P s)"
proof -
  from assms(1) obtain ps ss where s: "s = ps @ w @ ss" by (auto simp: sublist_def)
  have "dropWhile P (w @ ss) = w @ ss" using assms(2,3) by (cases w) auto
  then have "dropWhile P s = (if \<forall>x\<in>set ps. P x then w @ ss else dropWhile P ps @ w @ ss)"
    by (simp add: s dropWhile_append)
  then show ?thesis by (auto simp: sublist_def)
qed

lemma sublist_dropWhile_imp: "sublist w (dropWhile P s) \<Longrightarrow> sublist w s"
  by (metis sublist_order.order.trans suffix_dropWhile suffix_imp_sublist)

lemma sublist_trim:
  assumes "w \<noteq> []" "\<not> is_ws (hd w)" "\<not> is_ws (last w)"
  shows "sublist w (trim s) = sublist w s"
proof
  assume "sublist w (trim s)"
  then have "sublist (rev w) (dropWhile is_ws (rev (dropWhile is_ws s)))"
    by (simp add: trim_def sublist_rev_left)
  then have "sublist (rev w) (rev (dropWhile is_ws s))" by (rule sublist_dropWhile_imp)
  then have "sublist w (dropWhile is_ws s)" by (simp add: sublist_rev_left)
  then show "sublist w s" by (rule sublist_dropWhile_imp)
next
  assume "sublist w s"
  then have "sublist w (dropWhile is_ws s)" using assms by (intro dropWhile_keeps_sublist)
  then have "sublist (rev w) (rev (dropWhile is_ws s))" by simp
  then have "sublist (rev w) (dropWhile is_ws (rev (dropWhile is_ws s)))"
    using assms by (intro dropWhile_keeps_sublist) (auto simp: hd_rev)
  then show "sublist w (trim s)" by (simp add: trim_def sublist_rev_left)
qed

lemma normalizeCommandName_unfold:
  "normalizeCommandName nm =
     (let n = trim (toLowerCase nm) in
      if n = ''observe'' then Some Observe
      else if n = ''extract'' then Some Extract
      else if n = ''act'' then Some Act
      else if prefix ''wait'' n \<or> (\<exists>w\<in>set observe_words. sublist w n) then Some Observe
      else if (\<exists>w\<in>set act_words. sublist w n) then Some Act
      else if (\<exists>w\<in>set extract_words. sublist w n) then Some Extract
      else None)"
  by (simp add: normalizeCommandName_def re_test_words re_test_wait Let_def)

lemma words_in_trim:
  "w \<in> set (observe_words @ act_words @ extract_words) \<Longrightarrow> sublist w (trim s) = sublist w s"
  by (rule sublist_trim) (auto simp: observe_words_def act_words_def extract_words_def is_ws_def)

lemma canonical_no_trigger:
  assumes "n = ''observe'' \<or> n = ''extract'' \<or> n = ''act''"
  shows "\<not> prefix ''wait'' n" "\<forall>w\<in>set observe_words. \<not> sublist w n"
    "\<forall>w\<in>set act_words. \<not> sublist w n"
  using assms
  by (auto simp: observe_words_def act_words_def js_includes_sublist[symmetric])

lemma letters_disjoint: "l \<in> set lower_letters \<Longrightarrow> l \<notin> set upper_letters"
  unfolding lower_letters_def upper_letters_def by auto

lemma lower_char_idem: "lower_char (lower_char c) = lower_char c"
proof (cases "map_of (zip upper_letters lower_letters) c")
  case None
  then show ?thesis by (simp add: lower_char_def)
next
  case (Some l)
  then have "l \<in> set lower_letters" by (meson map_of_SomeD set_zip_rightD)
  then have "l \<notin> set upper_letters" by (rule letters_disjoint)
  then have "map_of (zip upper_letters lower_letters) l = None"
    by (simp add: map_of_zip_is_None upper_letters_def lower_letters_def)
  with Some show ?thesis by (simp add: lower_char_def)
qed


lemma toLowerCase_idem: "toLowerCase (toLowerCase s) = toLowerCase s"
  by (simp add: toLowerCase_def lower_char_idem)


lemma lit_rest_suffix: "lit_rest ic w s = Some s' \<Longrightarrow> suffix s' s"
proof (induction ic w s rule: lit_rest.induct)
  case (3 ic w ws c cs)
  from "3.prems" have c: "(if ic then canon_char w = canon_char c else w = c)"
    and r: "lit_rest ic ws cs = Some s'" by (auto split: if_splits)
  from "3.IH"[OF c r] show ?case by (rule suffix_ConsI)
qed auto

lemma re_match_suffix: "re_match ic i a s = Some (g, rest) \<Longrightarrow> suffix rest s"
proof (induction ic i a s arbitrary: g rest rule: re_match.induct)
  case (1 ic i s)
  then show ?case by simp
next
  case (2 ic i r s)
  from "2.prems" have z: "i = 0" and m: "re_match ic i r s = Some (g, rest)"
    by (auto split: if_splits)
  from "2.IH"[OF z m] show ?case .
next
  case (3 ic i r s)
  from "3.prems" have z: "s = []" and m: "re_match ic i r s = Some (g, rest)"
    by (auto split: if_splits)
  from "3.IH"[OF z m] show ?case .
next
  case (4 ic i w r s)
  from "4.prems" obtain s' where l: "lit_rest ic w s = Some s'"
    and m: "re_match ic (i + length w) r s' = Some (g, rest)"
    by (auto split: option.splits)
  from "4.IH"[OF l m] have "suffix rest s'" .
  moreover from l have "suffix s' s" by (rule lit_rest_suffix)
  ultimately show ?case by (rule suffix_order.trans)
next
  case (5 ic i w r s)
  show ?case
  proof (cases "case lit_rest ic w s of None \<Rightarrow> None
      | Some x \<Rightarrow> re_match ic (i + length w) r x")
    case None
    with "5.prems" have m: "re_match ic i r s = Some (g, rest)" by simp
    from "5.IH"(2)[OF None m] show ?thesis .
  next
    case (Some res)
    with "5.prems" have res: "res = (g, rest)" by simp
    from Some obtain s' where l: "lit_rest ic w s = Some s'"
      and m: "re_match ic (i + length w) r s' = Some (g, rest)"
      unfolding res by (auto split: option.splits)
    from "5.IH"(1)[OF l m] have "suffix rest s'" .
    moreover from l have "suffix s' s" by (rule lit_rest_suffix)
    ultimately show ?thesis by (rule suffix_order.trans)
  qed
next
  case (6 ic i k r)
  then show ?case by simp
next
  case (7 ic i k r c cs)
  from "7.prems" have k: "in_class k c" and m: "re_match ic (Suc i) r cs = Some (g, rest)"
    by (auto split: if_splits)
  from "7.IH"[OF k m] show ?case by (rule suffix_ConsI)
next
  case (8 ic i k r)
  then show ?case by simp
next
  case (9 ic i k r c cs)
  show ?case
  proof (cases "if in_class k c then re_match ic (Suc i) (Star k # r) cs else None")
    case None
    with "9.prems" have m: "re_match ic i r (c # cs) = Some (g, rest)" by simp
    from "9.IH"(2)[OF None m] show ?thesis .
  next
    case (Some res)
    with "9.prems" have res: "res = (g, rest)" by simp
    from Some have k: "in_class k c"
      and m: "re_match ic (Suc i) (Star k # r) cs = Some (g, rest)"
      unfolding res by (simp_all split: if_splits)
    from "9.IH"(1)[OF k m] show ?thesis by (rule suffix_ConsI)
  qed
next
  case (10 ic i k r)
  show ?case
  proof (cases "re_match ic i r []")
    case None
    with "10.prems" show ?thesis by simp
  next
    case (Some res)
    obtain g' rest' where res: "res = (g', rest')" by (cases res)
    with "10.prems" Some have "rest' = rest" by simp
    with Some res have m: "re_match ic i r [] = Some (g', rest)" by simp
    from "10.IH"[OF m] show ?thesis .
  qed
next
  case (11 ic i k r c cs)
  show ?case
  proof (cases "re_match ic i r (c # cs)")
    case (Some res)
    obtain g' rest' where res: "res = (g', rest')" by (cases res)
    with "11.prems" Some have "rest' = rest" by simp
    with Some res have m: "re_match ic i r (c # cs) = Some (g', rest)" by simp
    from "11.IH"(1)[OF m] show ?thesis .
  next
    case None
    with "11.prems" have k: "in_class k c" by (simp split: if_splits)
    from None k "11.prems" obtain g' where
      m: "re_match ic (Suc i) (Lazy k # r) cs = Some (g', rest)"
      by (cases "re_match ic (Suc i) (Lazy k # r) cs") auto
    from "11.IH"(2)[OF None k m] show ?thesis by (rule suffix_ConsI)
  qed
qed

lemma re_alts_suffix: "re_alts ic i re s = Some (g, rest) \<Longrightarrow> suffix rest s"
proof (induction re)
  case Nil
  then show ?case by simp
next
  case (Cons a re)
  show ?case
  proof (cases "re_match ic i a s")
    case None
    with Cons show ?thesis by simp
  next
    case (Some res)
    with Cons.prems have "re_match ic i a s = Some (g, rest)" by simp
    then show ?thesis by (rule re_match_suffix)
  qed
qed

lemma replace_all_from_subset: "set (replace_all_from re rep i s) \<subseteq> set rep \<union> set s"
proof (induction re rep i s rule: replace_all_from.induct)
  case (1 re rep i s)
  show ?case
  proof (cases "re_alts False i re s")
    case None
    then show ?thesis
    proof (cases s)
      case Nil
      with None show ?thesis by (subst replace_all_from.simps) simp
    next
      case (Cons c cs)
      with None "1.IH"(1)[OF None Cons] show ?thesis
        by (subst replace_all_from.simps) auto
    qed
  next
    case (Some a)
    obtain g rest where a: "a = (g, rest)" by (cases a)
    have suf: "set rest \<subseteq> set s" using re_alts_suffix[of False i re s g rest] Some a
      by (auto dest: set_mono_suffix)
    show ?thesis
    proof (cases "length rest < length s")
      case True
      with Some a suf "1.IH"(2)[OF Some a[symmetric] True] show ?thesis
        by (subst replace_all_from.simps) auto
    next
      case False
      show ?thesis
      proof (cases s)
        case Nil
        with Some a False show ?thesis by (subst replace_all_from.simps) simp
      next
        case (Cons c cs)
        with Some a False "1.IH"(3)[OF Some a[symmetric] False Cons] show ?thesis
          by (subst replace_all_from.simps) auto
      qed
    qed
  qed
qed

lemma replace_all_subset: "set (replace_all re rep s) \<subseteq> set rep \<union> set s"
  unfolding replace_all_def by (rule replace_all_from_subset)

lemma re_match_star_total: "re_match ic i [Star k] s \<noteq> None"
  by (induction s arbitrary: i) (auto split: option.splits)

lemma re_alts_not_alnum:
  "re_alts False i re_not_alnum (c # cs) = None \<Longrightarrow> c \<in> set lower_alnum"
  using re_match_star_total[of False "Suc i" "CNot (COneOf lower_alnum)" cs]
  by (auto simp: re_not_alnum_def split: if_splits option.splits)

lemma re_alts_not_alnum_consumes:
  "re_alts False i re_not_alnum s = Some (g, rest) \<Longrightarrow> length rest < length s"
proof (cases s)
  case Nil
  assume "re_alts False i re_not_alnum s = Some (g, rest)"
  with Nil show ?thesis by (simp add: re_not_alnum_def)
next
  case (Cons c cs)
  assume "re_alts False i re_not_alnum s = Some (g, rest)"
  with Cons have "re_match False (Suc i) [Star (CNot (COneOf lower_alnum))] cs = Some (g, rest)"
    by (auto simp: re_not_alnum_def split: if_splits option.splits)
  then have "suffix rest cs" by (rule re_match_suffix)
  then have "length rest \<le> length cs" by (rule suffix_length_le)
  with Cons show ?thesis by simp
qed

lemma replace_not_alnum_chars:
  "set (replace_all_from re_not_alnum ''-'' i s) \<subseteq> set lower_alnum \<union> {CHR ''-''}"
proof (induction re_not_alnum "''-''" i s rule: replace_all_from.induct)
  case (1 i s)
  show ?case
  proof (cases "re_alts False i re_not_alnum s")
    case None
    then show ?thesis
    proof (cases s)
      case Nil
      with None show ?thesis by (subst replace_all_from.simps) simp
    next
      case (Cons c cs)
      with None have "c \<in> set lower_alnum" by (auto dest: re_alts_not_alnum)
      with Cons None "1.hyps"(1)[OF None Cons] show ?thesis
        by (subst replace_all_from.simps) auto
    qed
  next
    case (Some a)
    obtain g rest where a: "a = (g, rest)" by (cases a)
    with Some have lt: "length rest < length s" by (auto dest: re_alts_not_alnum_consumes)
    with Some a "1.hyps"(2)[OF Some a[symmetric] lt] show ?thesis
      by (subst replace_all_from.simps) auto
  qed
qed

lemma slugify_chars: "set (slugify input maxLen) \<subseteq> set lower_alnum \<union> {CHR ''-''}"
proof -
  let ?a = "replace_all re_not_alnum ''-'' (replace_all re_scheme '''' (toLowerCase input))"
  have "set (slugify input maxLen) \<subseteq> set (replace_all re_edge_hyphens '''' ?a)"
    unfolding slugify_def by (rule set_take_subset)
  also have "\<dots> \<subseteq> set ?a" using replace_all_subset[of re_edge_hyphens "''''" ?a] by simp
  also have "\<dots> \<subseteq> set lower_alnum \<union> {CHR ''-''}"
    unfolding replace_all_def by (rule replace_not_alnum_chars)
  finally show ?thesis .
qed

lemma digit_char_digit: "digit_char d \<in> set ''0123456789''"
proof -
  have "d mod 10 < length ''0123456789''" by simp
  then show ?thesis unfolding digit_char_def by (rule nth_mem)
qed

lemma decimal_digits: "set (decimal n) \<subseteq> set ''0123456789''"
proof (induction n rule: decimal.induct)
  case (1 n)
  show ?case
  proof (cases "n < 10")
    case True
    then show ?thesis using digit_char_digit[of n] by (subst decimal.simps) simp
  next
    case False
    with 1 digit_char_digit[of n] show ?thesis by (subst decimal.simps) simp
  qed
qed

lemma z_digits: "set (z n w) \<subseteq> set ''0123456789''"
  using decimal_digits[of n] by (auto simp: z_def padStart_def)

lemma decimal_two_digits: "n < 100 \<Longrightarrow> length (z n 2) = 2"
proof (cases "n < 10")
  case True
  then have "decimal n = [digit_char n]" by (subst decimal.simps) simp
  then show ?thesis by (simp add: z_def padStart_def)
next
  case False
  assume "n < 100"
  with False have "n div 10 < 10" by simp
  then have "decimal (n div 10) = [digit_char (n div 10)]" by (subst decimal.simps) simp
  with False have "decimal n = [digit_char (n div 10), digit_char n]"
    by (subst decimal.simps) simp
  then show ?thesis by (simp add: z_def padStart_def)
qed


lemma canonical_extract_words:
  "\<forall>w\<in>set extract_words. \<not> sublist w ''observe''"
  "\<forall>w\<in>set extract_words. \<not> sublist w ''act''"
  "\<exists>w\<in>set extract_words. sublist w ''extract''"
  by (simp_all add: extract_words_def js_includes_sublist[symmetric])


section \<open>Normalisation of command names\<close>

text \<open>
  Claim C8. \<open>normalizeCommandName\<close> is a function of the lower-cased, trimmed input
  and applies its rules in a fixed order, the first match winning: the three canonical
  names; then the prefix \<open>wait\<close> or an occurrence of ensure, verify, check, confirm
  (observe); then an occurrence of one of the nine act verbs (act); then an occurrence of
  one of the seven extract verbs (extract); otherwise no result. Lower-casing the input
  first changes nothing, and an input in which an observe trigger occurs is normalised
  to observe whatever else occurs in it, an act verb included.
\<close>

theorem normalizeCommandName_ordered_rules:
  "normalizeCommandName nm =
     (let n = trim (toLowerCase nm) in
      if n = ''observe'' then Some Observe
      else if n = ''extract'' then Some Extract
      else if n = ''act'' then Some Act
      else if prefix ''wait'' n \<or> sublist ''ensure'' n \<or> sublist ''verify'' n
              \<or> sublist ''check'' n \<or> sublist ''confirm'' n then Some Observe
      else if sublist ''click'' n \<or> sublist ''type'' n \<or> sublist ''press'' n
              \<or> sublist ''navigate'' n \<or> sublist ''open'' n \<or> sublist ''select'' n
              \<or> sublist ''submit'' n \<or> sublist ''scroll'' n \<or> sublist ''hover'' n then Some Act
      else if sublist ''read'' n \<or> sublist ''get'' n \<or> sublist ''scrape'' n
              \<or> sublist ''capture'' n \<or> sublist ''grab'' n \<or> sublist ''copy'' n
              \<or> sublist ''extract'' n then Some Extract
      else None)
   \<and> normalizeCommandName (toLowerCase nm) = normalizeCommandName nm
   \<and> ((prefix ''wait'' (trim (toLowerCase nm)) \<or> sublist ''ensure'' (toLowerCase nm)
         \<or> sublist ''verify'' (toLowerCase nm) \<or> sublist ''check'' (toLowerCase nm)
         \<or> sublist ''confirm'' (toLowerCase nm))
        \<longrightarrow> normalizeCommandName nm = Some Observe)"
proof (intro conjI impI)
  show eq: "normalizeCommandName nm =
     (let n = trim (toLowerCase nm) in
      if n = ''observe'' then Some Observe
      else if n = ''extract'' then Some Extract
      else if n = ''act'' then Some Act
      else if prefix ''wait'' n \<or> sublist ''ensure'' n \<or> sublist ''verify'' n
              \<or> sublist ''check'' n \<or> sublist ''confirm'' n then Some Observe
      else if sublist ''click'' n \<or> sublist ''type'' n \<or> sublist ''press'' n
              \<or> sublist ''navigate'' n \<or> sublist ''open'' n \<or> sublist ''select'' n
              \<or> sublist ''submit'' n \<or> sublist ''scroll'' n \<or> sublist ''hover'' n then Some Act
      else if sublist ''read'' n \<or> sublist ''get'' n \<or> sublist ''scrape'' n
              \<or> sublist ''capture'' n \<or> sublist ''grab'' n \<or> sublist ''copy'' n
              \<or> sublist ''extract'' n then Some Extract
      else None)"
    unfolding normalizeCommandName_unfold
    by (simp add: observe_words_def act_words_def extract_words_def Let_def)
  show "normalizeCommandName (toLowerCase nm) = normalizeCommandName nm"
    by (simp add: normalizeCommandName_def toLowerCase_idem)
  assume trig: "prefix ''wait'' (trim (toLowerCase nm)) \<or> sublist ''ensure'' (toLowerCase nm)
         \<or> sublist ''verify'' (toLowerCase nm) \<or> sublist ''check'' (toLowerCase nm)
         \<or> sublist ''confirm'' (toLowerCase nm)"
  define n where "n = trim (toLowerCase nm)"
  have t: "prefix ''wait'' n \<or> (\<exists>w\<in>set observe_words. sublist w n)"
    using trig unfolding n_def
    by (auto simp: words_in_trim observe_words_def)
  then have "\<not> (n = ''observe'' \<or> n = ''extract'' \<or> n = ''act'')"
    using canonical_no_trigger(1,2)[of n] by blast
  with t show "normalizeCommandName nm = Some Observe"
    unfolding normalizeCommandName_unfold n_def[symmetric] by (simp add: Let_def)
qed


text \<open>An input with both \<open>check\<close> and \<open>click\<close>, in mixed case, is an observe step.\<close>

theorem normalizeCommandName_ordered_rules_witness:
  "sublist ''check'' (toLowerCase ''Check it, then CLICK'')
   \<and> sublist ''click'' (toLowerCase ''Check it, then CLICK'')
   \<and> normalizeCommandName ''Check it, then CLICK'' = Some Observe"
proof -
  have l: "toLowerCase ''Check it, then CLICK'' = ''check it, then click''"
    by (simp add: toLowerCase_def lower_char_def upper_letters_def lower_letters_def)
  have h: "sublist ''check'' (toLowerCase ''Check it, then CLICK'')"
    unfolding l by (simp add: js_includes_sublist[symmetric])
  have k: "sublist ''click'' (toLowerCase ''Check it, then CLICK'')"
    unfolding l by (simp add: js_includes_sublist[symmetric])
  have "normalizeCommandName ''Check it, then CLICK'' = Some Observe"
    using normalizeCommandName_ordered_rules[of "''Check it, then CLICK''",
        THEN conjunct2, THEN conjunct2] h by blast
  with h k show ?thesis by blast
qed

text \<open>
  Claim C9, as stated, makes every occurrence of a listed word decide the result on its
  own. It fails on the code: \<open>wait\<close> counts only as a prefix, an observe trigger wins
  over an act verb, an act verb over an extract verb, \<open>ensure\<close> is a trigger too, and the
  canonical name \<open>act\<close> contains no listed word and is still accepted.
\<close>

theorem normalizeCommandName_contains_counterexample:
  "sublist ''wait'' ''await'' \<and> normalizeCommandName ''await'' = None
   \<and> sublist ''click'' ''check click'' \<and> normalizeCommandName ''check click'' = Some Observe
   \<and> sublist ''get'' ''get type'' \<and> normalizeCommandName ''get type'' = Some Act
   \<and> normalizeCommandName ''ensure'' = Some Observe
   \<and> normalizeCommandName ''act'' = Some Act
   \<and> \<not> sublist ''wait'' ''act'' \<and> \<not> sublist ''verify'' ''act'' \<and> \<not> sublist ''check'' ''act''
   \<and> \<not> sublist ''confirm'' ''act'' \<and> \<not> sublist ''click'' ''act'' \<and> \<not> sublist ''type'' ''act''
   \<and> \<not> sublist ''press'' ''act'' \<and> \<not> sublist ''navigate'' ''act'' \<and> \<not> sublist ''open'' ''act''
   \<and> \<not> sublist ''select'' ''act'' \<and> \<not> sublist ''submit'' ''act'' \<and> \<not> sublist ''scroll'' ''act''
   \<and> \<not> sublist ''hover'' ''act'' \<and> \<not> sublist ''read'' ''act'' \<and> \<not> sublist ''get'' ''act''
   \<and> \<not> sublist ''scrape'' ''act'' \<and> \<not> sublist ''capture'' ''act'' \<and> \<not> sublist ''grab'' ''act''
   \<and> \<not> sublist ''copy'' ''act'' \<and> \<not> sublist ''extract'' ''act''"
proof -
  have a: "normalizeCommandName ''await'' = None" by code_simp
  have b: "normalizeCommandName ''check click'' = Some Observe" by code_simp
  have c: "normalizeCommandName ''get type'' = Some Act" by code_simp
  have d: "normalizeCommandName ''ensure'' = Some Observe" by code_simp
  have e: "normalizeCommandName ''act'' = Some Act" by code_simp
  show ?thesis unfolding a b c d e by (simp add: js_includes_sublist[symmetric])
qed

text \<open>
  Claim C9, amended. With the input lower-cased (and trimmed, for the prefix): if it
  starts with \<open>wait\<close> or contains ensure, verify, check or confirm the result is
  observe; otherwise, if it contains an act verb the result is act; otherwise, if it
  contains an extract verb the result is extract; otherwise there is no result, unless
  the trimmed input is exactly \<open>observe\<close> or \<open>act\<close>, which is returned as such.
\<close>

theorem normalizeCommandName_by_content:
  "(let l = toLowerCase nm; n = trim l;
        obs = (prefix ''wait'' n \<or> sublist ''ensure'' l \<or> sublist ''verify'' l
               \<or> sublist ''check'' l \<or> sublist ''confirm'' l);
        act = (sublist ''click'' l \<or> sublist ''type'' l \<or> sublist ''press'' l
               \<or> sublist ''navigate'' l \<or> sublist ''open'' l \<or> sublist ''select'' l
               \<or> sublist ''submit'' l \<or> sublist ''scroll'' l \<or> sublist ''hover'' l);
        ext = (sublist ''read'' l \<or> sublist ''get'' l \<or> sublist ''scrape'' l
               \<or> sublist ''capture'' l \<or> sublist ''grab'' l \<or> sublist ''copy'' l
               \<or> sublist ''extract'' l)
    in (obs \<longrightarrow> normalizeCommandName nm = Some Observe)
     \<and> (\<not> obs \<and> act \<longrightarrow> normalizeCommandName nm = Some Act)
     \<and> (\<not> obs \<and> \<not> act \<and> ext \<longrightarrow> normalizeCommandName nm = Some Extract)
     \<and> (\<not> obs \<and> \<not> act \<and> \<not> ext \<longrightarrow>
          normalizeCommandName nm =
            (if n = ''observe'' then Some Observe else if n = ''act'' then Some Act else None)))"
proof -
  define l where "l = toLowerCase nm"
  define n where "n = trim l"
  define ob where "ob = (prefix ''wait'' n \<or> (\<exists>w\<in>set observe_words. sublist w n))"
  define ac where "ac = (\<exists>w\<in>set act_words. sublist w n)"
  define ex where "ex = (\<exists>w\<in>set extract_words. sublist w n)"
  have o: "ob = (prefix ''wait'' n \<or> sublist ''ensure'' l \<or> sublist ''verify'' l
      \<or> sublist ''check'' l \<or> sublist ''confirm'' l)"
    unfolding ob_def n_def by (simp add: words_in_trim observe_words_def)
  have a: "ac = (sublist ''click'' l \<or> sublist ''type'' l \<or> sublist ''press'' l
               \<or> sublist ''navigate'' l \<or> sublist ''open'' l \<or> sublist ''select'' l
               \<or> sublist ''submit'' l \<or> sublist ''scroll'' l \<or> sublist ''hover'' l)"
    unfolding ac_def n_def by (simp add: words_in_trim act_words_def)
  have e: "ex = (sublist ''read'' l \<or> sublist ''get'' l \<or> sublist ''scrape'' l
               \<or> sublist ''capture'' l \<or> sublist ''grab'' l \<or> sublist ''copy'' l
               \<or> sublist ''extract'' l)"
    unfolding ex_def n_def by (simp add: words_in_trim extract_words_def)
  have c1: "n = ''observe'' \<Longrightarrow> \<not> ob \<and> \<not> ac \<and> \<not> ex"
    unfolding ob_def ac_def ex_def
    using canonical_no_trigger[of n] canonical_extract_words(1) by blast
  have c2: "n = ''act'' \<Longrightarrow> \<not> ob \<and> \<not> ac \<and> \<not> ex"
    unfolding ob_def ac_def ex_def
    using canonical_no_trigger[of n] canonical_extract_words(2) by blast
  have c3: "n = ''extract'' \<Longrightarrow> \<not> ob \<and> \<not> ac \<and> ex"
    unfolding ob_def ac_def ex_def
    using canonical_no_trigger[of n] canonical_extract_words(3) by blast
  have u: "normalizeCommandName nm =
     (if n = ''observe'' then Some Observe
      else if n = ''extract'' then Some Extract
      else if n = ''act'' then Some Act
      else if ob then Some Observe
      else if ac then Some Act
      else if ex then Some Extract
      else None)"
    unfolding normalizeCommandName_unfold n_def l_def ob_def ac_def ex_def Let_def ..
  have r1: "ob \<longrightarrow> normalizeCommandName nm = Some Observe"
    using c1 c2 c3 by (simp add: u)
  have r2: "\<not> ob \<and> ac \<longrightarrow> normalizeCommandName nm = Some Act"
    using c1 c2 c3 by (simp add: u)
  have r3: "\<not> ob \<and> \<not> ac \<and> ex \<longrightarrow> normalizeCommandName nm = Some Extract"
    using c1 c2 c3 by (simp add: u)
  have r4: "\<not> ob \<and> \<not> ac \<and> \<not> ex \<longrightarrow> normalizeCommandName nm =
      (if n = ''observe'' then Some Observe else if n = ''act'' then Some Act else None)"
    using c1 c2 c3 by (simp add: u)
  from r1 r2 r3 r4 show ?thesis
    unfolding Let_def l_def[symmetric] n_def[symmetric] o[symmetric] a[symmetric] e[symmetric]
    by blast
qed

text \<open>\<open>await\<close> is no prefix \<open>wait\<close>, no act verb occurs, and \<open>get\<close> does: an extract step.\<close>

theorem normalizeCommandName_by_content_witness:
  "normalizeCommandName ''Await the page, then GET the title'' = Some Extract"
proof -
  have l: "toLowerCase ''Await the page, then GET the title'' = ''await the page, then get the title''"
    by code_simp
  have t: "trim ''await the page, then get the title'' = ''await the page, then get the title''"
    by code_simp
  from normalizeCommandName_by_content[of "''Await the page, then GET the title''"]
  show ?thesis unfolding l t Let_def by (simp add: js_includes_sublist[symmetric])
qed

section \<open>Screenshot file names\<close>

text \<open>
  Claim C10. For every input, \<open>slugify\<close> with its default bound of 60 returns at most
  60 code units, each a small ASCII letter, a digit or a hyphen; so the file name that
  \<open>captureStepScreenshot\<close> builds from the ordinal, the step name and the slug has no
  character outside \<open>[a-z0-9-.]\<close>. The ordinal has two digits for every step below 100.
\<close>

theorem slugify_filename_safe:
  "length (slugify input 60) \<le> 60
   \<and> set (slugify input 60) \<subseteq> set ''abcdefghijklmnopqrstuvwxyz0123456789-''
   \<and> set (screenshot_name stepIndex step) \<subseteq> set ''abcdefghijklmnopqrstuvwxyz0123456789-.''
   \<and> (stepIndex < 100 \<longrightarrow> length (z stepIndex 2) = 2)"
proof (intro conjI impI)
  define safe where "safe = set ''abcdefghijklmnopqrstuvwxyz0123456789-.''"
  have "lower_alnum @ ''-'' = ''abcdefghijklmnopqrstuvwxyz0123456789-''"
    by (simp add: lower_alnum_def)
  moreover have "set lower_alnum \<union> {CHR ''-''} = set (lower_alnum @ ''-'')" by simp
  ultimately have slug_set:
    "set lower_alnum \<union> {CHR ''-''} = set ''abcdefghijklmnopqrstuvwxyz0123456789-''"
    by (rule subst)
  have s1: "set ''abcdefghijklmnopqrstuvwxyz0123456789-'' \<subseteq> safe"
    unfolding safe_def by (rule set_mono_prefix) simp
  have s2: "set ''0123456789'' \<subseteq> safe" unfolding safe_def by simp
  have s3: "set ''-'' \<subseteq> safe" unfolding safe_def by simp
  have s4: "set ''.jpg'' \<subseteq> safe" unfolding safe_def by simp
  have s5: "set (command_text k) \<subseteq> safe" for k
    unfolding safe_def by (cases k) (simp_all add: command_text_def)
  show "length (slugify input 60) \<le> 60" by (simp add: slugify_def)
  show sl: "set (slugify q 60) \<subseteq> set ''abcdefghijklmnopqrstuvwxyz0123456789-''" for q
    using slugify_chars[of q 60] unfolding slug_set .
  have a: "set (z stepIndex 2) \<subseteq> safe"
    using z_digits[of stepIndex 2] s2 by (rule subset_trans)
  have c: "set (slugify (query step) 60) \<subseteq> safe"
    using sl s1 by (rule subset_trans)
  have "set (screenshot_name stepIndex step) \<subseteq> safe"
    unfolding screenshot_name_def set_append using a s3 s4 s5[of "name step"] c
    by (intro Un_least)
  then show "set (screenshot_name stepIndex step) \<subseteq> set ''abcdefghijklmnopqrstuvwxyz0123456789-.''"
    unfolding safe_def .
  show "stepIndex < 100 \<Longrightarrow> length (z stepIndex 2) = 2" by (rule decimal_two_digits)
qed

text \<open>The seventh step of a plan, an act step with a URL in its query.\<close>

theorem slugify_filename_safe_witness:
  "(7::nat) < 100 \<and> length (z 7 2) = 2
   \<and> screenshot_name 7 \<lparr>name = Act, query = ''Click https://Example.com/Sign In!''\<rparr>
       = ''07-act-click-example-com-sign-in.jpg''
   \<and> set (screenshot_name 7 \<lparr>name = Act, query = ''Click https://Example.com/Sign In!''\<rparr>)
       \<subseteq> set ''abcdefghijklmnopqrstuvwxyz0123456789-.''"
proof -
  have e: "screenshot_name 7 \<lparr>name = Act, query = ''Click https://Example.com/Sign In!''\<rparr>
       = ''07-act-click-example-com-sign-in.jpg''"
    by code_simp
  from slugify_filename_safe[of "''x''" 7 "\<lparr>name = Act, query = ''Click https://Example.com/Sign In!''\<rparr>"] e
  show ?thesis by simp
qed

section \<open>Plan validation\<close>

lemma validate_step_ok:
  "step_ok v \<Longrightarrow> validate_step v i = Inr \<lparr>name = step_kind v, query = step_query v\<rparr>"
  unfolding step_ok_def is_js_object_def step_has_query_def step_name_ok_def
  by (cases v)
     (auto simp: validate_step_def step_kind_def step_query_def Let_def
           split: option.splits jsval.splits)

lemma validate_step_bad:
  "\<not> step_ok v \<Longrightarrow> validate_step v i = Inl (step_throws v i)"
  unfolding step_ok_def is_js_object_def step_has_query_def step_name_ok_def step_fault_def
    step_throws_def name_converts_def
  by (cases v) (auto simp: validate_step_def Let_def split: option.splits jsval.splits)

lemma map_steps_all_ok:
  "list_all step_ok steps \<Longrightarrow>
     map_steps steps idx = Inr (map (\<lambda>s. \<lparr>name = step_kind s, query = step_query s\<rparr>) steps)"
  by (induction steps arbitrary: idx) (simp_all add: validate_step_ok)

lemma map_steps_first_bad:
  "\<not> list_all step_ok steps \<Longrightarrow>
     map_steps steps idx =
       Inl (step_throws (steps ! length (takeWhile step_ok steps))
              (idx + length (takeWhile step_ok steps)))"
proof (induction steps arbitrary: idx)
  case Nil
  then show ?case by simp
next
  case (Cons s steps)
  show ?case
  proof (cases "step_ok s")
    case True
    with Cons.prems have "\<not> list_all step_ok steps" by simp
    from Cons.IH[OF this, of "Suc idx"] True show ?thesis by (simp add: validate_step_ok)
  next
    case False
    then show ?thesis by (simp add: validate_step_bad)
  qed
qed




lemma validatePlan_shape:
  "plan_array raw = None \<Longrightarrow> validatePlan raw = Inl PlanShapeError"
  by (cases raw) (auto simp: validatePlan_def plan_array_def split: option.splits jsval.splits)

lemma validatePlan_steps:
  "plan_array raw = Some steps \<Longrightarrow> validatePlan raw = map_steps steps 0"
  by (cases raw) (auto simp: validatePlan_def plan_array_def split: option.splits jsval.splits)






section \<open>The final output\<close>

lemma last_filter_at:
  assumes "i < length xs" "P (xs ! i)" "\<forall>j. i < j \<and> j < length xs \<longrightarrow> \<not> P (xs ! j)"
  shows "filter P xs \<noteq> [] \<and> last (filter P xs) = xs ! i"
proof -
  have xs: "xs = take i xs @ xs ! i # drop (Suc i) xs" using assms(1) by (rule id_take_nth_drop)
  have "filter P (drop (Suc i) xs) = []"
  proof -
    have "\<not> P x" if "x \<in> set (drop (Suc i) xs)" for x
    proof -
      from that obtain k where k: "k < length (drop (Suc i) xs)" and x: "x = drop (Suc i) xs ! k"
        by (auto simp: in_set_conv_nth)
      then have "x = xs ! (Suc i + k)" by simp
      moreover from k have "Suc i + k < length xs" by simp
      ultimately show ?thesis using assms(3) by simp
    qed
    then show ?thesis by (simp add: filter_empty_conv)
  qed
  then have "filter P xs = filter P (take i xs) @ [xs ! i]"
    using assms(2) by (subst xs) simp
  then show ?thesis by simp
qed

lemma extractSteps_none:
  "list_all (\<lambda>st. name st \<noteq> Extract) pl \<Longrightarrow> extractSteps pl outs = []"
proof -
  assume a: "list_all (\<lambda>st. name st \<noteq> Extract) pl"
  have "name st \<noteq> Extract" if "(st, j) \<in> set (zip pl [0..<length pl])" for st j
    using a set_zip_leftD[OF that] by (simp add: list_all_iff)
  then show ?thesis
    by (auto simp: extractSteps_def filter_empty_conv)
qed

lemma extractSteps_hd:
  assumes "last_extract pl i"
  shows "extractSteps pl outs \<noteq> []"
    and "hd (extractSteps pl outs) = (pl ! i, i, js_index outs i)"
proof -
  let ?xs = "map (\<lambda>(step, index). (step, index, js_index outs index)) (zip pl [0..<length pl])"
  let ?P = "\<lambda>(step, index, output). name step = Extract"
  from assms have i: "i < length pl" and e: "name (pl ! i) = Extract"
    and later: "\<forall>j. i < j \<and> j < length pl \<longrightarrow> name (pl ! j) \<noteq> Extract"
    by (auto simp: last_extract_def list_all_iff)
  have nth: "?xs ! j = (pl ! j, j, js_index outs j)" if "j < length pl" for j
    using that by simp
  have len: "length ?xs = length pl" by simp
  have a: "i < length ?xs" using i by simp
  have b: "?P (?xs ! i)" using e nth[OF i] by simp
  have c: "\<forall>j. i < j \<and> j < length ?xs \<longrightarrow> \<not> ?P (?xs ! j)"
    using later nth by (simp add: len)
  from last_filter_at[of i ?xs ?P, OF a b c]
  have f: "filter ?P ?xs \<noteq> []" and l: "last (filter ?P ?xs) = ?xs ! i" by blast+
  from f show "extractSteps pl outs \<noteq> []" by (simp add: extractSteps_def)
  from f l nth[OF i] show "hd (extractSteps pl outs) = (pl ! i, i, js_index outs i)"
    by (simp add: extractSteps_def hd_rev)
qed


text \<open>
  Claim C2, as stated, lets an earlier extract step supply the result when the most
  recent one fails the test. The code looks at the most recent extract step only: with
  two extract steps, the first with a headline and the second with a not-found output,
  the result is the fallback (the raw first output, prefix included), not the cleaned
  headline.
\<close>

theorem extractFinalOutput_earlier_extract_counterexample:
  "still_meaningful (clean_output ''Headline: Markets rally today'')
   \<and> \<not> still_meaningful (clean_output ''(not found)'')
   \<and> clean_output ''Headline: Markets rally today'' = ''Markets rally today''
   \<and> extractFinalOutput
        [\<lparr>name = Extract, query = ''top headline''\<rparr>, \<lparr>name = Extract, query = ''subtitle''\<rparr>]
        [''Headline: Markets rally today'', ''(not found)'']
      = Inr ''Headline: Markets rally today''
   \<and> extractFinalOutput
        [\<lparr>name = Extract, query = ''top headline''\<rparr>, \<lparr>name = Extract, query = ''subtitle''\<rparr>]
        [''Headline: Markets rally today'', ''(not found)'']
      \<noteq> Inr (clean_output ''Headline: Markets rally today'')"
proof -
  have a: "clean_output ''Headline: Markets rally today'' = ''Markets rally today''" by code_simp
  have b: "clean_output ''(not found)'' = ''(not found)''" by code_simp
  have c: "still_meaningful ''Markets rally today''" by code_simp
  have d: "\<not> still_meaningful ''(not found)''" by code_simp
  have e: "extractFinalOutput
        [\<lparr>name = Extract, query = ''top headline''\<rparr>, \<lparr>name = Extract, query = ''subtitle''\<rparr>]
        [''Headline: Markets rally today'', ''(not found)'']
      = Inr ''Headline: Markets rally today''" by code_simp
  show ?thesis unfolding a b using c d e by simp
qed


text \<open>
  Claim C2, amended. \<open>extractFinalOutput\<close> considers the most recent extract step only.
  If its output, after the prefixes are stripped and the text trimmed, is longer than 10
  and has no not-found marker, the cleaned text is returned; otherwise, also when an
  earlier extract step would pass, the result is the fallback: the last output that has
  a navigation marker or is longer than 20 without an action or observation echo, or
  else the fixed sentence. A plan without extract steps gives the fallback at once, and
  an extract step without an output makes the call throw.
\<close>

theorem extractFinalOutput_last_extract_only:
  "(list_all (\<lambda>st. name st \<noteq> Extract) pl \<longrightarrow>
      extractFinalOutput pl outs = Inr (fallback_output outs))
   \<and> (last_extract pl i \<and> i < length outs \<longrightarrow>
        extractFinalOutput pl outs =
          (if still_meaningful (clean_output (outs ! i)) then Inr (clean_output (outs ! i))
           else Inr (fallback_output outs)))
   \<and> (last_extract pl i \<and> length outs \<le> i \<longrightarrow>
        extractFinalOutput pl outs = Inl TypeError)
   \<and> (list_all (\<lambda>out. \<not> meaningful_output out) outs \<longrightarrow>
        fallback_output outs = ''Task completed successfully - no specific content extracted'')
   \<and> (\<not> list_all (\<lambda>out. \<not> meaningful_output out) outs \<longrightarrow>
        fallback_output outs = last (filter meaningful_output outs))"
proof (intro conjI impI)
  assume "list_all (\<lambda>st. name st \<noteq> Extract) pl"
  then show "extractFinalOutput pl outs = Inr (fallback_output outs)"
    by (simp add: extractFinalOutput_def extractSteps_none)
next
  assume "last_extract pl i \<and> i < length outs"
  then have l: "last_extract pl i" and i: "i < length outs" by simp_all
  from extractSteps_hd[OF l, of outs] i
  show "extractFinalOutput pl outs =
          (if still_meaningful (clean_output (outs ! i)) then Inr (clean_output (outs ! i))
           else Inr (fallback_output outs))"
    by (simp add: extractFinalOutput_def js_index_def Let_def)
next
  assume "last_extract pl i \<and> length outs \<le> i"
  then have l: "last_extract pl i" and i: "length outs \<le> i" by simp_all
  from extractSteps_hd[OF l, of outs] i
  show "extractFinalOutput pl outs = Inl TypeError"
    by (simp add: extractFinalOutput_def js_index_def Let_def)
next
  assume "list_all (\<lambda>out. \<not> meaningful_output out) outs"
  then have "filter meaningful_output outs = []"
    by (simp add: filter_empty_conv list_all_iff)
  then show "fallback_output outs = ''Task completed successfully - no specific content extracted''"
    by (simp add: fallback_output_def)
next
  assume "\<not> list_all (\<lambda>out. \<not> meaningful_output out) outs"
  then have "filter meaningful_output outs \<noteq> []"
    by (simp add: filter_empty_conv list_all_iff)
  then show "fallback_output outs = last (filter meaningful_output outs)"
    by (simp add: fallback_output_def Let_def last_conv_nth)
qed


text \<open>The plan of the counterexample: step 1 is the most recent extract step and fails.\<close>

theorem extractFinalOutput_last_extract_only_witness:
  "last_extract [\<lparr>name = Extract, query = ''top headline''\<rparr>, \<lparr>name = Extract, query = ''subtitle''\<rparr>] 1
   \<and> (1::nat) < length [''Headline: Markets rally today'', ''(not found)'']
   \<and> extractFinalOutput
        [\<lparr>name = Extract, query = ''top headline''\<rparr>, \<lparr>name = Extract, query = ''subtitle''\<rparr>]
        [''Headline: Markets rally today'', ''(not found)'']
      = Inr (fallback_output [''Headline: Markets rally today'', ''(not found)''])"
proof -
  let ?pl = "[\<lparr>name = Extract, query = ''top headline''\<rparr>, \<lparr>name = Extract, query = ''subtitle''\<rparr>]"
  let ?outs = "[''Headline: Markets rally today'', ''(not found)'']"
  have l: "last_extract ?pl 1" by (simp add: last_extract_def)
  have i: "(1::nat) < length ?outs" by simp
  have b: "clean_output ''(not found)'' = ''(not found)''" by code_simp
  have d: "\<not> still_meaningful ''(not found)''" by code_simp
  from extractFinalOutput_last_extract_only[of ?pl ?outs 1] l i
  have "extractFinalOutput ?pl ?outs =
          (if still_meaningful (clean_output (?outs ! 1)) then Inr (clean_output (?outs ! 1))
           else Inr (fallback_output ?outs))" by blast
  with b d l i show ?thesis by simp
qed

section \<open>The step executor\<close>


lemma error_text_TypeError: "error_text err = Inl e \<Longrightarrow> e = TypeError"
  by (auto simp: error_text_def read_message_def rejection_to_string_def
      split: rejection.splits if_splits option.splits sum.splits)


















section \<open>The read cache of a planning session\<close>
























section \<open>The planning loop\<close>

lemma validatePlan_errors:
  "validatePlan raw = Inl e \<Longrightarrow>
     e = PlanShapeError \<or> e = TypeError
     \<or> (\<exists>i. e = StepNotObject i \<or> e = StepQueryError i \<or> e = StepNameError i)"
proof (cases "plan_array raw")
  case None
  assume "validatePlan raw = Inl e"
  with validatePlan_shape[OF None] show ?thesis by simp
next
  case (Some steps)
  assume v: "validatePlan raw = Inl e"
  show ?thesis
  proof (cases "list_all step_ok steps")
    case True
    with v validatePlan_steps[OF Some] map_steps_all_ok[OF True, of 0] show ?thesis by simp
  next
    case False
    with v validatePlan_steps[OF Some] map_steps_first_bad[OF False, of 0] show ?thesis
      by (auto simp: step_fault_def step_throws_def split: if_splits)
  qed
qed

lemma validatePlan_not_exhausted: "validatePlan raw \<noteq> Inl PlanningExhausted"
  using validatePlan_errors[of raw PlanningExhausted] by auto

lemma safeParsePlan_errors:
  "safeParsePlan ev c = Inl e \<Longrightarrow> e = NoCodeFence \<or> e = JsonSyntaxError"
  by (auto simp: safeParsePlan_def split: option.splits if_splits)

lemma invokeStagehand_error: "invokeStagehand sh log kind q = (Inl e, log') \<Longrightarrow> e = TypeError"
  by (auto simp: invokeStagehand_def split: outcome.splits sum.splits dest: error_text_TypeError)

lemma invokeStagehand_returns:
  assumes "\<forall>log c err. sh log c = Rejected err \<longrightarrow> renderable err"
  shows "\<exists>res log'. invokeStagehand sh log kind q = (Inr res, log')"
proof (cases "sh log (kind, q)")
  case (Resolved res)
  then show ?thesis by (simp add: invokeStagehand_def)
next
  case (Rejected err)
  with assms have "renderable err" by blast
  then obtain t where "error_text err = Inr t" by (auto simp: renderable_def split: sum.splits)
  with Rejected show ?thesis by (simp add: invokeStagehand_def)
qed

lemma handle_tool_call_completions:
  "completions (final_state (handle_tool_call ev st tc)) = completions st"
  by (auto simp: handle_tool_call_def final_state_def push_def Let_def
      split: option.splits sum.splits if_splits prod.splits)

lemma handle_tool_call_not_exhausted:
  "thrown (handle_tool_call ev st tc) \<noteq> Some PlanningExhausted"
  using validatePlan_not_exhausted
  by (auto simp: handle_tool_call_def thrown_def Let_def
      split: option.splits sum.splits if_splits prod.splits dest: invokeStagehand_error)

lemma handle_tool_calls_completions:
  "completions (final_state (handle_tool_calls ev st tcs)) = completions st"
proof (induction tcs arbitrary: st)
  case Nil
  show ?case by (simp add: final_state_def)
next
  case (Cons tc tcs)
  show ?case
  proof (cases "handle_tool_call ev st tc")
    case (Next st')
    with handle_tool_call_completions[of ev st tc] have "completions st' = completions st"
      by (simp add: final_state_def)
    with Next Cons.IH[of st'] show ?thesis by simp
  next
    case (Return p st')
    with handle_tool_call_completions[of ev st tc] show ?thesis by (simp add: final_state_def)
  next
    case (Throw e st')
    with handle_tool_call_completions[of ev st tc] show ?thesis by (simp add: final_state_def)
  qed
qed

lemma handle_tool_calls_not_exhausted:
  "thrown (handle_tool_calls ev st tcs) \<noteq> Some PlanningExhausted"
proof (induction tcs arbitrary: st)
  case Nil
  show ?case by (simp add: thrown_def)
next
  case (Cons tc tcs)
  show ?case
  proof (cases "handle_tool_call ev st tc")
    case (Next st')
    with Cons.IH[of st'] show ?thesis by simp
  next
    case (Return p st')
    then show ?thesis by (simp add: thrown_def)
  next
    case (Throw e st')
    with handle_tool_call_not_exhausted[of ev st tc] show ?thesis by (simp add: thrown_def)
  qed
qed

lemma plan_round_completions:
  "completions (final_state (plan_round ev iter st)) = Suc (completions st)"
proof (cases "llm ev iter (messages st)")
  case CompletionFails
  then show ?thesis by (simp add: plan_round_def final_state_def)
next
  case NoMessage
  then show ?thesis by (simp add: plan_round_def final_state_def)
next
  case (Message tcs content)
  show ?thesis
  proof (cases "length tcs > 0")
    case True
    with Message show ?thesis
      using handle_tool_calls_completions[of ev "push (AssistantCalls tcs) (st\<lparr>completions := Suc (completions st)\<rparr>)" tcs]
      by (simp add: plan_round_def push_def Let_def)
  next
    case False
    with Message show ?thesis
      by (auto simp: plan_round_def final_state_def push_def Let_def split: option.splits sum.splits)
  qed
qed

lemma plan_round_not_exhausted: "thrown (plan_round ev iter st) \<noteq> Some PlanningExhausted"
proof (cases "llm ev iter (messages st)")
  case CompletionFails
  then show ?thesis by (simp add: plan_round_def thrown_def)
next
  case NoMessage
  then show ?thesis by (simp add: plan_round_def thrown_def)
next
  case (Message tcs content)
  show ?thesis
  proof (cases "length tcs > 0")
    case True
    with Message show ?thesis
      using handle_tool_calls_not_exhausted[of ev "push (AssistantCalls tcs) (st\<lparr>completions := Suc (completions st)\<rparr>)" tcs]
      by (simp add: plan_round_def Let_def)
  next
    case False
    with Message show ?thesis
      using validatePlan_not_exhausted
      by (auto simp: plan_round_def thrown_def Let_def split: option.splits sum.splits
          dest: safeParsePlan_errors)
  qed
qed

lemma call_goes_on_next:
  assumes "call_goes_on ev tc"
    and "\<forall>log c err. stagehand ev log c = Rejected err \<longrightarrow> renderable err"
  shows "\<exists>st'. handle_tool_call ev st tc = Next st'"
proof -
  have "\<exists>res log'. invokeStagehand (stagehand ev) log kind q = (Inr res, log')" for log kind q
    using assms(2) by (rule invokeStagehand_returns)
  then have r: "invokeStagehand (stagehand ev) log kind q \<noteq> (Inl e, log')" for log kind q e log'
    by (metis Inl_Inr_False prod.inject)
  from assms(1) show ?thesis
    using r
    by (auto simp: call_goes_on_def handle_tool_call_def Let_def
        split: option.splits prod.splits sum.splits)
qed

lemma calls_go_on_next:
  assumes "list_all (call_goes_on ev) tcs"
    and "\<forall>log c err. stagehand ev log c = Rejected err \<longrightarrow> renderable err"
  shows "\<exists>st'. handle_tool_calls ev st tcs = Next st'"
  using assms(1)
proof (induction tcs arbitrary: st)
  case Nil
  show ?case by simp
next
  case (Cons tc tcs)
  from Cons.prems have "call_goes_on ev tc" and r: "list_all (call_goes_on ev) tcs" by simp_all
  then obtain st1 where "handle_tool_call ev st tc = Next st1"
    using call_goes_on_next[OF _ assms(2)] by blast
  with Cons.IH[OF r, of st1] show ?case by simp
qed

lemma response_goes_on_next:
  assumes "response_goes_on ev (llm ev iter (messages st))"
    and p: "\<forall>log c err. stagehand ev log c = Rejected err \<longrightarrow> renderable err"
  shows "\<exists>st'. plan_round ev iter st = Next st'"
proof (cases "llm ev iter (messages st)")
  case CompletionFails
  with assms(1) show ?thesis by (simp add: response_goes_on_def)
next
  case NoMessage
  with assms(1) show ?thesis by (simp add: response_goes_on_def)
next
  case (Message tcs content)
  note g = assms(1)
  show ?thesis
  proof (cases "length tcs > 0")
    case True
    with g Message have "list_all (call_goes_on ev) tcs" by (simp add: response_goes_on_def)
    from calls_go_on_next[OF this p] True Message show ?thesis by (simp add: plan_round_def Let_def)
  next
    case False
    with g Message show ?thesis
      by (auto simp: response_goes_on_def plan_round_def Let_def split: option.splits)
  qed
qed

lemma plan_loop_step:
  "iter < 16 \<Longrightarrow> plan_loop ev iter st =
     (case plan_round ev iter st of
        Next st' \<Rightarrow> plan_loop ev (Suc iter) st'
      | Return p st' \<Rightarrow> Return p st'
      | Throw e st' \<Rightarrow> Throw e st')"
  by (subst plan_loop.simps) simp

lemma plan_loop_end: "\<not> iter < 16 \<Longrightarrow> plan_loop ev iter st = Throw PlanningExhausted st"
  by (subst plan_loop.simps) simp

lemma plan_loop_completions:
  "completions (final_state (plan_loop ev iter st)) \<le> completions st + (16 - iter)"
proof (induction ev iter st rule: plan_loop.induct)
  case (1 ev iter st)
  show ?case
  proof (cases "iter < 16")
    case False
    then show ?thesis by (simp add: plan_loop_end final_state_def)
  next
    case True
    note c = plan_round_completions[of ev iter st]
    show ?thesis
    proof (cases "plan_round ev iter st")
      case (Next st')
      with c have "completions st' = Suc (completions st)" by (simp add: final_state_def)
      with "1.IH"[OF True Next] True Next show ?thesis by (simp add: plan_loop_step)
    next
      case (Return p st')
      with c True show ?thesis by (simp add: plan_loop_step final_state_def)
    next
      case (Throw e st')
      with c True show ?thesis by (simp add: plan_loop_step final_state_def)
    qed
  qed
qed

lemma plan_loop_never_next: "plan_loop ev iter st \<noteq> Next st'"
proof (induction ev iter st rule: plan_loop.induct)
  case (1 ev iter st)
  show ?case
  proof (cases "iter < 16")
    case False
    then show ?thesis by (simp add: plan_loop_end)
  next
    case True
    show ?thesis
    proof (cases "plan_round ev iter st")
      case (Next st1)
      with "1.IH"[OF True Next] True show ?thesis by (simp add: plan_loop_step)
    next
      case (Return p st1)
      with True show ?thesis by (simp add: plan_loop_step)
    next
      case (Throw e st1)
      with True show ?thesis by (simp add: plan_loop_step)
    qed
  qed
qed

lemma plan_loop_exhausts:
  assumes "\<forall>i<16. \<forall>msgs. response_goes_on ev (llm ev i msgs)"
    and "\<forall>log c err. stagehand ev log c = Rejected err \<longrightarrow> renderable err"
  shows "\<exists>st'. plan_loop ev iter st = Throw PlanningExhausted st'
           \<and> completions st' = completions st + (16 - iter)"
  using assms
proof (induction ev iter st rule: plan_loop.induct)
  case (1 ev iter st)
  show ?case
  proof (cases "iter < 16")
    case False
    then show ?thesis by (simp add: plan_loop_end)
  next
    case True
    with "1.prems" have "response_goes_on ev (llm ev iter (messages st))" by simp
    then obtain st1 where n: "plan_round ev iter st = Next st1"
      using response_goes_on_next "1.prems"(2) by blast
    with plan_round_completions[of ev iter st] have c: "completions st1 = Suc (completions st)"
      by (simp add: final_state_def)
    from "1.IH"[OF True n "1.prems"] obtain st' where
      "plan_loop ev (Suc iter) st1 = Throw PlanningExhausted st'"
      "completions st' = completions st1 + (16 - Suc iter)" by blast
    with True n c show ?thesis by (simp add: plan_loop_step)
  qed
qed

lemma plan_loop_exhausted_late:
  "thrown (plan_loop ev iter st) = Some PlanningExhausted \<Longrightarrow>
     completions (final_state (plan_loop ev iter st)) = completions st + (16 - iter)"
proof (induction ev iter st rule: plan_loop.induct)
  case (1 ev iter st)
  show ?case
  proof (cases "iter < 16")
    case False
    then show ?thesis by (simp add: plan_loop_end final_state_def)
  next
    case True
    show ?thesis
    proof (cases "plan_round ev iter st")
      case (Next st1)
      with plan_round_completions[of ev iter st] have c: "completions st1 = Suc (completions st)"
        by (simp add: final_state_def)
      from "1.prems" True Next have "thrown (plan_loop ev (Suc iter) st1) = Some PlanningExhausted"
        by (simp add: plan_loop_step)
      from "1.IH"[OF True Next this] True Next c show ?thesis by (simp add: plan_loop_step)
    next
      case (Return p st1)
      with "1.prems" True show ?thesis by (simp add: plan_loop_step thrown_def)
    next
      case (Throw e st1)
      with "1.prems" True have "e = PlanningExhausted" by (simp add: plan_loop_step thrown_def)
      with Throw plan_round_not_exhausted[of ev iter st] show ?thesis by (simp add: thrown_def)
    qed
  qed
qed



text \<open>
  Claim C1, as stated, has \<open>plan\<close> append a text that cannot be parsed and go on to
  the next round. In the code \<open>safeParsePlan\<close> is called outside any \<open>try\<close>: a model that
  answers in plain words makes \<open>plan\<close> throw in the first round, after one completion,
  and the transcript is as it was.
\<close>

theorem plan_plain_words_counterexample:
  "trim ''I could not find a plan yet.'' = ''I could not find a plan yet.''
   \<and> JSON_parse (example_env\<lparr>llm := llm_plain_words\<rparr>) ''I could not find a plan yet.'' = None
   \<and> re_group1 True re_fence ''I could not find a plan yet.'' = None
   \<and> thrown (plan (example_env\<lparr>llm := llm_plain_words\<rparr>) ''read the heading'') = Some NoCodeFence
   \<and> completions (final_state (plan (example_env\<lparr>llm := llm_plain_words\<rparr>) ''read the heading'')) = 1
   \<and> messages (final_state (plan (example_env\<lparr>llm := llm_plain_words\<rparr>) ''read the heading''))
       = [SystemPrompt, UserPrompt ''read the heading'']"
  by code_simp


text \<open>
  Claim C1, amended. In a round in which the model returns no tool call and a content
  that is not empty after trimming, a content that \<open>JSON.parse\<close> rejects and whose first
  code fence, if it has one, is rejected too makes \<open>plan\<close> throw in that round: the
  error of the missing fence or the syntax error; nothing is appended. The content is
  appended as an assistant entry, and the loop goes on, when it is absent, empty or
  white space only.
\<close>

theorem plan_free_text_round:
  "(llm ev iter (messages st) = Message [] (Some c) \<and> trim c \<noteq> [] \<and> JSON_parse ev c = None
      \<and> (\<forall>g. re_group1 True re_fence c = Some g \<and> g \<noteq> [] \<longrightarrow> JSON_parse ev g = None)
      \<and> iter < 16 \<longrightarrow>
      (\<exists>e. (e = NoCodeFence \<or> e = JsonSyntaxError)
         \<and> plan_round ev iter st = Throw e (st\<lparr>completions := Suc (completions st)\<rparr>)
         \<and> plan_loop ev iter st = Throw e (st\<lparr>completions := Suc (completions st)\<rparr>)))
   \<and> (llm ev iter (messages st) = Message [] None \<longrightarrow>
        plan_round ev iter st
          = Next (st\<lparr>completions := Suc (completions st), messages := messages st @ [AssistantMsg []]\<rparr>))
   \<and> (llm ev iter (messages st) = Message [] (Some c) \<and> trim c = [] \<longrightarrow>
        plan_round ev iter st
          = Next (st\<lparr>completions := Suc (completions st), messages := messages st @ [AssistantMsg c]\<rparr>))"
proof (intro conjI impI)
  assume a: "llm ev iter (messages st) = Message [] (Some c) \<and> trim c \<noteq> [] \<and> JSON_parse ev c = None
      \<and> (\<forall>g. re_group1 True re_fence c = Some g \<and> g \<noteq> [] \<longrightarrow> JSON_parse ev g = None)
      \<and> iter < 16"
  then have m: "llm ev iter (messages st) = Message [] (Some c)" and t: "trim c \<noteq> []"
    and d: "JSON_parse ev c = None"
    and f: "\<forall>g. re_group1 True re_fence c = Some g \<and> g \<noteq> [] \<longrightarrow> JSON_parse ev g = None"
    and i: "iter < 16" by simp_all
  have "\<exists>e. (e = NoCodeFence \<or> e = JsonSyntaxError) \<and> safeParsePlan ev c = Inl e"
  proof (cases "re_group1 True re_fence c")
    case None
    with d show ?thesis by (simp add: safeParsePlan_def)
  next
    case (Some g)
    show ?thesis
    proof (cases "g = []")
      case True
      with Some d show ?thesis by (simp add: safeParsePlan_def)
    next
      case False
      with Some f have "JSON_parse ev g = None" by simp
      with Some False d show ?thesis by (simp add: safeParsePlan_def)
    qed
  qed
  then obtain e where e: "e = NoCodeFence \<or> e = JsonSyntaxError" and s: "safeParsePlan ev c = Inl e"
    by blast
  from m t s have r: "plan_round ev iter st = Throw e (st\<lparr>completions := Suc (completions st)\<rparr>)"
    by (simp add: plan_round_def Let_def)
  with i have "plan_loop ev iter st = Throw e (st\<lparr>completions := Suc (completions st)\<rparr>)"
    by (simp add: plan_loop_step)
  with e r show "\<exists>e. (e = NoCodeFence \<or> e = JsonSyntaxError)
         \<and> plan_round ev iter st = Throw e (st\<lparr>completions := Suc (completions st)\<rparr>)
         \<and> plan_loop ev iter st = Throw e (st\<lparr>completions := Suc (completions st)\<rparr>)"
    by blast
next
  assume "llm ev iter (messages st) = Message [] None"
  then show "plan_round ev iter st
          = Next (st\<lparr>completions := Suc (completions st), messages := messages st @ [AssistantMsg []]\<rparr>)"
    by (simp add: plan_round_def Let_def push_def)
next
  assume "llm ev iter (messages st) = Message [] (Some c) \<and> trim c = []"
  then show "plan_round ev iter st
          = Next (st\<lparr>completions := Suc (completions st), messages := messages st @ [AssistantMsg c]\<rparr>)"
    by (simp add: plan_round_def Let_def push_def)
qed

text \<open>The model of the counterexample, in the first round.\<close>

theorem plan_free_text_round_witness:
  "llm (example_env\<lparr>llm := llm_plain_words\<rparr>) 0 (messages (initial_state ''read the heading'' []))
     = Message [] (Some ''I could not find a plan yet.'')
   \<and> trim ''I could not find a plan yet.'' \<noteq> []
   \<and> JSON_parse (example_env\<lparr>llm := llm_plain_words\<rparr>) ''I could not find a plan yet.'' = None
   \<and> re_group1 True re_fence ''I could not find a plan yet.'' = None
   \<and> (\<exists>e. plan (example_env\<lparr>llm := llm_plain_words\<rparr>) ''read the heading''
            = Throw e ((initial_state ''read the heading'' [])\<lparr>completions := Suc 0\<rparr>))"
proof -
  let ?ev = "example_env\<lparr>llm := llm_plain_words\<rparr>"
  let ?st = "initial_state ''read the heading'' []"
  let ?c = "''I could not find a plan yet.''"
  have m: "llm ?ev 0 (messages ?st) = Message [] (Some ?c)" by (simp add: llm_plain_words_def)
  have t: "trim ?c \<noteq> []" by code_simp
  have d: "JSON_parse ?ev ?c = None" by (simp add: example_env_def example_parse_def)
  have f: "re_group1 True re_fence ?c = None" by code_simp
  have "\<exists>e. (e = NoCodeFence \<or> e = JsonSyntaxError)
         \<and> plan_round ?ev 0 ?st = Throw e (?st\<lparr>completions := Suc (completions ?st)\<rparr>)
         \<and> plan_loop ?ev 0 ?st = Throw e (?st\<lparr>completions := Suc (completions ?st)\<rparr>)"
  proof (rule mp[OF plan_free_text_round[of ?ev 0 ?st ?c, THEN conjunct1]])
    show "llm ?ev 0 (messages ?st) = Message [] (Some ?c) \<and> trim ?c \<noteq> [] \<and> JSON_parse ?ev ?c = None
      \<and> (\<forall>g. re_group1 True re_fence ?c = Some g \<and> g \<noteq> [] \<longrightarrow> JSON_parse ?ev g = None)
      \<and> (0::nat) < 16"
    proof (intro conjI allI impI)
      show "llm ?ev 0 (messages ?st) = Message [] (Some ?c)" by (rule m)
      show "trim ?c \<noteq> []" by (rule t)
      show "JSON_parse ?ev ?c = None" by (rule d)
      show "JSON_parse ?ev g = None" if "re_group1 True re_fence ?c = Some g \<and> g \<noteq> []" for g
        using that unfolding f by simp
      show "(0::nat) < 16" by simp
    qed
  qed
  then obtain e where E: "(e = NoCodeFence \<or> e = JsonSyntaxError)
         \<and> plan_round ?ev 0 ?st = Throw e (?st\<lparr>completions := Suc (completions ?st)\<rparr>)
         \<and> plan_loop ?ev 0 ?st = Throw e (?st\<lparr>completions := Suc (completions ?st)\<rparr>)"
    by (elim exE)
  have c0: "completions ?st = 0" by (simp add: initial_state_def)
  from E[THEN conjunct2, THEN conjunct2]
  have "plan ?ev ''read the heading'' = Throw e (?st\<lparr>completions := Suc 0\<rparr>)"
    unfolding plan_def c0 .
  then have "\<exists>e. plan ?ev ''read the heading'' = Throw e (?st\<lparr>completions := Suc 0\<rparr>)"
    by (rule exI[of _ e])
  with m t d f show ?thesis by (intro conjI)
qed

text \<open>
  Claim C6, as stated, has every negotiation that finalises no plan end in
  \<open>PlanningExhausted\<close> after round 16. A round can also end the call with another
  error. Here the second round brings a code fence without JSON, and \<open>plan\<close> throws the
  syntax error after two completions, with no plan finalised. And when the model asks
  for an observation that the provider rejects with \<open>undefined\<close>, the \<open>catch\<close> block of
  \<open>invokeStagehand\<close> throws: \<open>plan\<close> ends with a \<open>TypeError\<close> in the first round.
\<close>

theorem plan_early_error_counterexample:
  "thrown (plan (example_env\<lparr>llm := llm_bad_fence\<rparr>) ''read the heading'') = Some JsonSyntaxError
   \<and> completions (final_state (plan (example_env\<lparr>llm := llm_bad_fence\<rparr>) ''read the heading'')) = 2
   \<and> messages (final_state (plan (example_env\<lparr>llm := llm_bad_fence\<rparr>) ''read the heading''))
       = [SystemPrompt, UserPrompt ''read the heading'', AssistantMsg []]
   \<and> response_goes_on (example_env\<lparr>llm := llm_observes, stagehand := provider_no_reason\<rparr>)
        (Message [observe_call] None)
   \<and> thrown (plan (example_env\<lparr>llm := llm_observes, stagehand := provider_no_reason\<rparr>)
               ''read the heading'') = Some TypeError
   \<and> completions (final_state (plan (example_env\<lparr>llm := llm_observes, stagehand := provider_no_reason\<rparr>)
               ''read the heading'')) = 1"
  by code_simp


text \<open>
  Claim C6, amended. \<open>plan\<close> requests at most 16 completions and always ends, with a
  plan or an error. When in each of the 16 rounds the response lets the round go on (its
  tool calls are no finalize calls, have arguments that parse, and for a capability
  arguments that are not \<open>null\<close> and a query with a string form; or it has no tool call
  and a content that is absent, empty or white space only), and the provider never
  rejects with a value for which the \<open>catch\<close> block of \<open>invokeStagehand\<close> throws, \<open>plan\<close>
  throws \<open>PlanningExhausted\<close> after exactly 16 completions; and that error is thrown in
  no other way.
\<close>

theorem plan_bounded_by_sixteen_rounds:
  "completions (final_state (plan ev task)) \<le> 16
   \<and> (\<forall>st. plan ev task \<noteq> Next st)
   \<and> ((\<forall>iter<16. \<forall>msgs. response_goes_on ev (llm ev iter msgs))
        \<and> (\<forall>log c err. stagehand ev log c = Rejected err \<longrightarrow> renderable err) \<longrightarrow>
        (\<exists>st. plan ev task = Throw PlanningExhausted st \<and> completions st = 16))
   \<and> (thrown (plan ev task) = Some PlanningExhausted \<longrightarrow>
        completions (final_state (plan ev task)) = 16)"
proof (intro conjI allI impI)
  show "completions (final_state (plan ev task)) \<le> 16"
    using plan_loop_completions[of ev 0 "initial_state task []"]
    by (simp add: plan_def initial_state_def)
  show "plan ev task \<noteq> Next st" for st
    by (simp add: plan_def plan_loop_never_next)
  show "\<exists>st. plan ev task = Throw PlanningExhausted st \<and> completions st = 16"
    if "(\<forall>iter<16. \<forall>msgs. response_goes_on ev (llm ev iter msgs))
        \<and> (\<forall>log c err. stagehand ev log c = Rejected err \<longrightarrow> renderable err)"
    using plan_loop_exhausts[OF that[THEN conjunct1] that[THEN conjunct2], of 0 "initial_state task []"]
    by (simp add: plan_def initial_state_def)
  show "completions (final_state (plan ev task)) = 16"
    if "thrown (plan ev task) = Some PlanningExhausted"
    using plan_loop_exhausted_late[of ev 0 "initial_state task []"] that
    by (simp add: plan_def initial_state_def)
qed


text \<open>A model that asks for the same extraction in each round, on a provider that
  rejects with an \<open>Error\<close> or not at all: sixteen rounds, then exhaustion.\<close>

theorem plan_bounded_by_sixteen_rounds_witness:
  "response_goes_on example_env (Message [extract_call] None)
   \<and> renderable (ErrorObject \<lparr>err_name = ''TimeoutError'', err_message = ''Timeout 30000ms exceeded''\<rparr>)
   \<and> (\<exists>st. plan example_env ''read the heading'' = Throw PlanningExhausted st
         \<and> completions st = 16)"
proof -
  have g: "response_goes_on example_env (Message [extract_call] None)"
    by (simp add: response_goes_on_def call_goes_on_def parse_arguments_def extract_call_def
        example_env_def example_parse_def query_of_def)
  have r: "renderable (ErrorObject \<lparr>err_name = ''TimeoutError'', err_message = ''Timeout 30000ms exceeded''\<rparr>)"
    by (simp add: renderable_def error_text_def read_message_def)
  have a: "\<forall>iter<16. \<forall>msgs. response_goes_on example_env (llm example_env iter msgs)"
  proof (intro allI impI)
    fix iter :: nat and msgs
    have "llm example_env iter msgs = Message [extract_call] None" by (simp add: example_env_def)
    with g show "response_goes_on example_env (llm example_env iter msgs)" by simp
  qed
  have b: "\<forall>log c err. stagehand example_env log c = Rejected err \<longrightarrow> renderable err"
  proof (intro allI impI)
    fix log c err
    assume "stagehand example_env log c = Rejected err"
    then have "err = ErrorObject \<lparr>err_name = ''TimeoutError'', err_message = ''Timeout 30000ms exceeded''\<rparr>"
      by (cases c) (auto simp: example_env_def example_provider_def split: CommandName.splits)
    with r show "renderable err" by simp
  qed
  from plan_bounded_by_sixteen_rounds[of example_env "''read the heading''"] a b
  have "\<exists>st. plan example_env ''read the heading'' = Throw PlanningExhausted st \<and> completions st = 16"
    by blast
  with g r show ?thesis by (intro conjI)
qed

end
